theory Spec2Isabelle
  imports Complex_Main "HOL-Library.Signed_Division" "HOL-Library.AList" "HOL-Library.Multiset"
begin

section \<open>Go's values\<close>

subsection \<open>\<^verbatim>\<open>int\<close>, \<^verbatim>\<open>int64\<close> and \<^verbatim>\<open>time.Duration\<close>\<close>

text \<open>
  On a 64-bit platform Go's \<^verbatim>\<open>int\<close>, \<^verbatim>\<open>int64\<close> and \<^verbatim>\<open>time.Duration\<close> are 64-bit
  two's complement integers. They are modelled as \<open>int\<close>; every arithmetic operation of
  the source is followed by the wrap-around into \<open>[-2^63, 2^63)\<close>. Go's \<^verbatim>\<open>/\<close> truncates
  towards zero (\<open>sdiv\<close>). Every division of the source has a non-zero divisor (a positive
  constant, or a count tested to be positive), so the division panic has no branch.
\<close>

definition wrap64 :: "int \<Rightarrow> int" where
  "wrap64 x = (x + 2 ^ 63) mod 2 ^ 64 - 2 ^ 63"

definition add64 :: "int \<Rightarrow> int \<Rightarrow> int" where
  "add64 a b = wrap64 (a + b)"

definition sub64 :: "int \<Rightarrow> int \<Rightarrow> int" where
  "sub64 a b = wrap64 (a - b)"

definition mul64 :: "int \<Rightarrow> int \<Rightarrow> int" where
  "mul64 a b = wrap64 (a * b)"

definition div64 :: "int \<Rightarrow> int \<Rightarrow> int" where
  "div64 a b = wrap64 (a sdiv b)"

text \<open>\<^verbatim>\<open>fmt.Sprintf("%d", status)\<close>: the decimal numeral of an integer.\<close>

fun decimal :: "nat \<Rightarrow> string" where
  "decimal n =
     (if n < 10 then [''0123456789'' ! n]
      else decimal (n div 10) @ [''0123456789'' ! (n mod 10)])"

declare decimal.simps [simp del]

definition Sprintf_d :: "int \<Rightarrow> string" where
  "Sprintf_d i = (if i < 0 then CHR ''-'' # decimal (nat (- i)) else decimal (nat i))"

subsection \<open>\<^verbatim>\<open>float64\<close>\<close>

text \<open>
  A \<^verbatim>\<open>float64\<close> is modelled by the real number it denotes (no NaN and no infinity arises
  in the store: every float in it is \<open>0\<close> or the conversion of a duration). The conversion
  of an integer to \<^verbatim>\<open>float64\<close> rounds to the nearest value with a 53-bit significand,
  ties to even; the conversion of a float to \<^verbatim>\<open>int\<close> drops the fraction. Go leaves the
  result of converting a float outside the range of \<^verbatim>\<open>int\<close> to the implementation; the
  model takes amd64's answer (the least \<^verbatim>\<open>int64\<close>), and no theorem below reads it.
  The sums, products and quotients of floats in \<^verbatim>\<open>Round\<close> and \<^verbatim>\<open>Duration.Seconds\<close> are
  taken exactly: their IEEE rounding is not modelled.
\<close>

function bit_length :: "int \<Rightarrow> nat" where
  "bit_length a = (if a \<le> 0 then 0 else Suc (bit_length (a div 2)))"
  by pat_completeness auto
termination
  by (relation "measure nat") auto

declare bit_length.simps [simp del]

text \<open>
  \<open>round_half_even a k\<close> is the multiple of \<open>2^k\<close> nearest to \<open>a \<ge> 0\<close>, the one with the
  even quotient when two are equally near. A \<^verbatim>\<open>float64\<close> has 53 significant bits, so the
  conversion of \<open>i\<close> drops the \<open>k\<close> low bits of \<open>\<bar>i\<bar>\<close> that exceed them.
\<close>

definition round_half_even :: "int \<Rightarrow> nat \<Rightarrow> int" where
  "round_half_even a k =
     (let q = a div 2 ^ k;
          r = a mod 2 ^ k
      in if 2 ^ k < 2 * r \<or> (2 * r = 2 ^ k \<and> odd q) then (q + 1) * 2 ^ k else q * 2 ^ k)"

definition float64_of_int64 :: "int \<Rightarrow> real" where
  "float64_of_int64 i =
     (let a = \<bar>i\<bar>;
          k = bit_length a - 53
      in real_of_int (sgn i * round_half_even a k))"

definition int_of_float64 :: "real \<Rightarrow> int" where
  "int_of_float64 x =
     (let t = (if 0 \<le> x then \<lfloor>x\<rfloor> else \<lceil>x\<rceil>)
      in if - (2 ^ 63) \<le> t \<and> t < 2 ^ 63 then t else - (2 ^ 63))"

subsection \<open>\<^verbatim>\<open>time.Time\<close>\<close>

text \<open>
  An instant is the number of nanoseconds since the zero \<^verbatim>\<open>time.Time{}\<close>. Go keeps the
  seconds of an instant in an \<^verbatim>\<open>int64\<close> of their own, so \<^verbatim>\<open>Add\<close> of a duration does not
  overflow within \<open>2^63\<close> seconds of the zero instant and is modelled exactly. \<^verbatim>\<open>Sub\<close>
  returns a duration and saturates at the least and greatest one.
\<close>

type_synonym time = int
type_synonym duration = int

definition minDuration :: duration where
  "minDuration = - (2 ^ 63)"

definition maxDuration :: duration where
  "maxDuration = 2 ^ 63 - 1"

definition Second :: duration where
  "Second = 1000000000"

definition Time_Add :: "time \<Rightarrow> duration \<Rightarrow> time" where
  "Time_Add t d = t + d"

definition Time_Sub :: "time \<Rightarrow> time \<Rightarrow> duration" where
  "Time_Sub t u =
     (let d = t - u
      in if d < minDuration then minDuration else if maxDuration < d then maxDuration else d)"

text \<open>\<^verbatim>\<open>func (d Duration) Seconds() float64\<close> of the standard library.\<close>

definition Duration_Seconds :: "duration \<Rightarrow> real" where
  "Duration_Seconds d =
     (let sec = div64 d Second;
          nsec = d smod Second
      in float64_of_int64 sec + float64_of_int64 nsec / 1000000000)"

text \<open>\<^verbatim>\<open>func (t Time) Unix() int64\<close>: the seconds since 1970, the zero instant being year 1.\<close>

definition Time_Unix :: "time \<Rightarrow> int" where
  "Time_Unix t = t div 1000000000 - 62135596800"

subsection \<open>Maps\<close>

text \<open>
  A Go map is an association list with one pair for each key. \<open>index m k\<close> is \<^verbatim>\<open>m[k]\<close>,
  the zero value when \<open>k\<close> has no entry; \<open>assign m k v\<close> is \<^verbatim>\<open>m[k] = v\<close>; \<open>incr m k\<close> is
  \<^verbatim>\<open>m[k]++\<close>. A \<^verbatim>\<open>range\<close> loop visits the pairs in an order of Go's choosing: the list's
  order stands for it.
\<close>

definition index :: "('k \<times> 'v::zero) list \<Rightarrow> 'k \<Rightarrow> 'v" where
  "index m k = (case map_of m k of None \<Rightarrow> 0 | Some v \<Rightarrow> v)"

definition assign :: "('k \<times> 'v) list \<Rightarrow> 'k \<Rightarrow> 'v \<Rightarrow> ('k \<times> 'v) list" where
  "assign m k v = AList.update k v m"

definition incr :: "('k \<times> int) list \<Rightarrow> 'k \<Rightarrow> ('k \<times> int) list" where
  "incr m k = assign m k (add64 (index m k) 1)"

section \<open>The data model of \<^verbatim>\<open>stats.go\<close>\<close>

record TimeSpan =
  Weeks :: int
  Days :: int
  Hours :: int
  Minutes :: int
  Seconds :: int

record ResponseURL =
  ResponseURL :: string
  RepsonseMethod :: string
  ResponseDuration :: duration
  ResponseTime :: time
  ResponseSeconds :: real
  ResponseSince :: TimeSpan

text \<open>
  The store. Its mutex is not modelled: every operation below is one critical section,
  a function from the store before to the store after.
\<close>

record Stats =
  Uptime :: time
  Pid :: int
  ResponseCounts :: "(string \<times> int) list"
  TotalResponseCounts :: "(string \<times> int) list"
  URLRequestLatency :: "(string \<times> int) list"
  URLRequestCounts :: "(string \<times> int) list"
  TotalResponseTime :: time
  RequestTypeCounts :: "(string \<times> int) list"
  UserAgentCounts :: "(string \<times> int) list"
  URLHighestResponse :: "(string \<times> real) list"
  URLLowestResponse :: "(string \<times> real) list"
  MaxResponseTime :: ResponseURL

text \<open>
  The snapshot, \<^verbatim>\<open>type data struct\<close>. Its fields carry the prefix \<open>data_\<close>, since many
  share their name with a field of the store. Where the source exports a text
  (\<^verbatim>\<open>UpTime\<close>, \<^verbatim>\<open>Time\<close>, \<^verbatim>\<open>TotalResponseTime\<close>, \<^verbatim>\<open>AverageResponseTime\<close>) the field holds
  the duration or instant whose \<^verbatim>\<open>String()\<close> is exported.
\<close>

record data =
  data_Pid :: int
  data_UpTime :: duration
  data_UpTimeSec :: real
  data_Time :: time
  data_TimeUnix :: int
  data_StatusCodeCount :: "(string \<times> int) list"
  data_TotalStatusCodeCount :: "(string \<times> int) list"
  data_Count :: int
  data_TotalCount :: int
  data_TotalResponseTime :: duration
  data_TotalResponseTimeSec :: real
  data_AverageResponseTime :: duration
  data_AverageResponseTimeSec :: real
  data_URLRequestCounts :: "(string \<times> int) list"
  data_RequestTypeCounts :: "(string \<times> int) list"
  data_UserAgentCounts :: "(string \<times> int) list"
  data_URLRequestLatency :: "(string \<times> int) list"
  data_URLHighestResponse :: "(string \<times> real) list"
  data_URLLowestResponse :: "(string \<times> real) list"
  data_MaxResponseTime :: ResponseURL

section \<open>The operations\<close>

text \<open>
  \<^verbatim>\<open>New\<close>: \<open>now\<close> is the clock's reading and \<open>pid\<close> the process id. The goroutine it
  starts calls \<^verbatim>\<open>ResetResponseCounts\<close> once a second; it is the event \<open>Tick\<close> of a run.
\<close>

definition New :: "time \<Rightarrow> int \<Rightarrow> Stats" where
  "New now pid =
     \<lparr>Uptime = now,
      Pid = pid,
      ResponseCounts = [],
      TotalResponseCounts = [],
      URLRequestLatency = [],
      URLRequestCounts = [],
      TotalResponseTime = 0,
      RequestTypeCounts = [],
      UserAgentCounts = [],
      URLHighestResponse = [],
      URLLowestResponse = [],
      MaxResponseTime =
        \<lparr>ResponseURL = [], RepsonseMethod = [], ResponseDuration = 0, ResponseTime = 0,
         ResponseSeconds = 0,
         ResponseSince = \<lparr>Weeks = 0, Days = 0, Hours = 0, Minutes = 0, Seconds = 0\<rparr>\<rparr>\<rparr>"

definition ResetResponseCounts :: "Stats \<Rightarrow> Stats" where
  "ResetResponseCounts mw = mw\<lparr>ResponseCounts := []\<rparr>"

text \<open>
  \<^verbatim>\<open>EndWithStatus\<close>, statement by statement: \<open>end'\<close> and \<open>now\<close> are the two readings of
  the clock, the first at entry and the second when the peak is replaced. Each \<open>mw\<close> is
  the store after the statement on its line. \<^verbatim>\<open>Begin\<close>, \<^verbatim>\<open>End\<close>, \<^verbatim>\<open>Handler\<close> and
  \<^verbatim>\<open>ServeHTTP\<close> only read the clock and the recorder's status and pass them on to this
  function.
\<close>

definition EndWithStatus ::
  "time \<Rightarrow> time \<Rightarrow> time \<Rightarrow> int \<Rightarrow> string \<Rightarrow> string \<Rightarrow> string \<Rightarrow> Stats \<Rightarrow> Stats" where
  "EndWithStatus end' now start status url method useragent mw =
     (let responseTime = Time_Sub end' start;
          statusCode = Sprintf_d status;
          mw = mw\<lparr>ResponseCounts := incr (ResponseCounts mw) statusCode\<rparr>;
          mw = mw\<lparr>TotalResponseCounts := incr (TotalResponseCounts mw) statusCode\<rparr>;
          mw = mw\<lparr>TotalResponseTime := Time_Add (TotalResponseTime mw) responseTime\<rparr>;
          mw = mw\<lparr>URLRequestCounts := incr (URLRequestCounts mw) url\<rparr>;
          mw = mw\<lparr>URLRequestLatency :=
                  assign (URLRequestLatency mw) url
                    (add64 (index (URLRequestLatency mw) url) responseTime)\<rparr>;
          mw = mw\<lparr>RequestTypeCounts := incr (RequestTypeCounts mw) method\<rparr>;
          mw = mw\<lparr>UserAgentCounts := incr (UserAgentCounts mw) useragent\<rparr>;
          mw = (if ResponseDuration (MaxResponseTime mw) < responseTime
                then mw\<lparr>MaxResponseTime := (MaxResponseTime mw)
                       \<lparr>ResponseDuration := responseTime,
                        ResponseURL := url,
                        ResponseTime := now,
                        RepsonseMethod := method\<rparr>\<rparr>
                else mw);
          mw = (if index (URLHighestResponse mw) url < float64_of_int64 responseTime
                then mw\<lparr>URLHighestResponse :=
                       assign (URLHighestResponse mw) url (float64_of_int64 responseTime)\<rparr>
                else mw);
          mw = (if index (URLLowestResponse mw) url = 0
                then mw\<lparr>URLLowestResponse :=
                       assign (URLLowestResponse mw) url (float64_of_int64 responseTime)\<rparr>
                else mw);
          mw = (if float64_of_int64 responseTime < index (URLLowestResponse mw) url
                then mw\<lparr>URLLowestResponse :=
                       assign (URLLowestResponse mw) url (float64_of_int64 responseTime)\<rparr>
                else mw)
      in mw)"

text \<open>\<^verbatim>\<open>SecondsToDate\<close> and \<^verbatim>\<open>Round\<close>.\<close>

definition SecondsToDate :: "real \<Rightarrow> int \<times> int \<times> int \<times> int \<times> int" where
  "SecondsToDate seconds2 =
     (let seconds = int_of_float64 seconds2;
          weeks = div64 seconds (7*24*60*60);
          days = sub64 (div64 seconds (24*60*60)) (mul64 7 weeks);
          hours = sub64 (sub64 (div64 seconds (60*60)) (mul64 (7*24) weeks)) (mul64 24 days);
          minutes = sub64 (sub64 (sub64 (div64 seconds 60) (mul64 (7*24*60) weeks))
                      (mul64 (24*60) days)) (mul64 60 hours);
          seconds3 = sub64 (sub64 (sub64 (sub64 seconds (mul64 (7*24*60*60) weeks))
                      (mul64 (24*60*60) days)) (mul64 (60*60) hours)) (mul64 60 minutes)
      in (weeks, days, hours, minutes, seconds3))"

text \<open>The loop of \<^verbatim>\<open>Round\<close>: \<^verbatim>\<open>for i := 0; i < decimals; i++ { pow *= 10 }\<close>.\<close>

function Round_loop :: "int \<Rightarrow> int \<Rightarrow> real \<Rightarrow> real" where
  "Round_loop i decimals pow =
     (if i < decimals then Round_loop (i + 1) decimals (pow * 10) else pow)"
  by pat_completeness auto
termination
  by (relation "measure (\<lambda>(i, decimals, pow). nat (decimals - i))") auto

declare Round_loop.simps [simp del]

definition Round :: "real \<Rightarrow> int \<Rightarrow> real" where
  "Round v decimals =
     (let pow = Round_loop 0 decimals 1
      in float64_of_int64 (int_of_float64 (v * pow + 1 / 2)) / pow)"

text \<open>
  \<^verbatim>\<open>Data\<close>, statement by statement: \<open>now\<close> is the clock's reading at entry and \<open>now'\<close>
  the one \<^verbatim>\<open>time.Since\<close> takes. The export writes the derived fields of the peak record
  through the store's pointer, so the function returns the store too; the snapshot's
  peak is the store's (one pointer in the source).
\<close>

definition Data :: "time \<Rightarrow> time \<Rightarrow> Stats \<Rightarrow> data \<times> Stats" where
  "Data now now' mw =
     (let uptime = Time_Sub now (Uptime mw);
          count = foldl (\<lambda>count (_, current). add64 count current) 0 (ResponseCounts mw);
          totalCount = foldl (\<lambda>totalCount (_, count). add64 totalCount count) 0
                         (TotalResponseCounts mw);
          totalResponseTime = Time_Sub (TotalResponseTime mw) 0;
          averageResponseTime =
            (if 0 < totalCount then div64 totalResponseTime totalCount else 0);
          mw = mw\<lparr>MaxResponseTime := (MaxResponseTime mw)
                 \<lparr>ResponseSeconds := Duration_Seconds (ResponseDuration (MaxResponseTime mw))\<rparr>\<rparr>;
          duration = Time_Sub now' (ResponseTime (MaxResponseTime mw));
          (weeks, days, hours, minutes, seconds) =
            SecondsToDate (Round (Duration_Seconds duration) 0);
          mw = mw\<lparr>MaxResponseTime := (MaxResponseTime mw)
                 \<lparr>ResponseSince := (ResponseSince (MaxResponseTime mw))
                    \<lparr>Weeks := weeks, Days := days, Hours := hours, Minutes := minutes,
                     Seconds := seconds\<rparr>\<rparr>\<rparr>;
          r = \<lparr>data_Pid = Pid mw,
               data_UpTime = uptime,
               data_UpTimeSec = Duration_Seconds uptime,
               data_Time = now,
               data_TimeUnix = Time_Unix now,
               data_StatusCodeCount = ResponseCounts mw,
               data_TotalStatusCodeCount = TotalResponseCounts mw,
               data_Count = count,
               data_TotalCount = totalCount,
               data_TotalResponseTime = totalResponseTime,
               data_TotalResponseTimeSec = Duration_Seconds totalResponseTime,
               data_AverageResponseTime = averageResponseTime,
               data_AverageResponseTimeSec = Duration_Seconds averageResponseTime,
               data_URLRequestCounts = URLRequestCounts mw,
               data_RequestTypeCounts = RequestTypeCounts mw,
               data_UserAgentCounts = UserAgentCounts mw,
               data_URLRequestLatency = URLRequestLatency mw,
               data_URLHighestResponse = URLHighestResponse mw,
               data_URLLowestResponse = URLLowestResponse mw,
               data_MaxResponseTime = MaxResponseTime mw\<rparr>
      in (r, mw))"

section \<open>Runs of the store\<close>

text \<open>
  What happens to a store, in the order the mutex grants: a request is recorded (the
  arguments of \<^verbatim>\<open>EndWithStatus\<close>, with its two clock readings first), the window
  scheduler resets the window, or a snapshot is exported.
\<close>

datatype event =
  Request time time time int string string string
  | Tick
  | Export time time

fun step :: "Stats \<Rightarrow> event \<Rightarrow> Stats" where
  "step mw (Request end' now start status url method useragent) =
     EndWithStatus end' now start status url method useragent mw"
| "step mw Tick = ResetResponseCounts mw"
| "step mw (Export now now') = snd (Data now now' mw)"

definition run :: "Stats \<Rightarrow> event list \<Rightarrow> Stats" where
  "run mw evs = foldl step mw evs"

text \<open>The elapsed durations a run records, in order, and those of one URL.\<close>

fun elapsed :: "event list \<Rightarrow> duration list" where
  "elapsed [] = []"
| "elapsed (Request end' now start status url method useragent # evs) =
     Time_Sub end' start # elapsed evs"
| "elapsed (ev # evs) = elapsed evs"

fun elapsed_of :: "string \<Rightarrow> event list \<Rightarrow> duration list" where
  "elapsed_of u [] = []"
| "elapsed_of u (Request end' now start status url method useragent # evs) =
     (if url = u then Time_Sub end' start # elapsed_of u evs else elapsed_of u evs)"
| "elapsed_of u (ev # evs) = elapsed_of u evs"

text \<open>
  A map of counters that has counted \<open>n\<close> events: no counter is negative and they add
  up to \<open>n\<close>.
\<close>

definition counts :: "(string \<times> int) list \<Rightarrow> int \<Rightarrow> bool" where
  "counts m n \<longleftrightarrow> (\<forall>p\<in>set m. 0 \<le> snd p) \<and> sum_list (map snd m) = n"

text \<open>
  The spec's companion of the decomposition, in its words: \<open>v\<close> rounded to \<open>n\<close> decimal
  digits, a half going away from zero. It is what \<^verbatim>\<open>Round\<close> is compared with.
\<close>

definition round_half_away_from_zero :: "real \<Rightarrow> nat \<Rightarrow> real" where
  "round_half_away_from_zero v n = sgn v * real_of_int \<lfloor>\<bar>v\<bar> * 10 ^ n + 1 / 2\<rfloor> / 10 ^ n"

section \<open>Facts about the arithmetic\<close>

lemma wrap64_id: "- (2 ^ 63) \<le> x \<Longrightarrow> x < 2 ^ 63 \<Longrightarrow> wrap64 x = x"
  by (simp add: wrap64_def)

lemma int_of_float64_of_int:
  "- (2 ^ 63) \<le> s \<Longrightarrow> s < 2 ^ 63 \<Longrightarrow> int_of_float64 (real_of_int s) = s"
  by (simp add: int_of_float64_def)

lemma sdiv_nonneg: "0 \<le> a \<Longrightarrow> 0 < b \<Longrightarrow> a sdiv b = a div (b::int)"
  by (simp add: signed_divide_int_def sgn_if)

lemma div64_nonneg:
  assumes "0 \<le> a" "a < 2 ^ 63" "0 < b"
  shows "div64 a b = a div b"
proof -
  have "0 \<le> a div b"
    using assms by (simp add: pos_imp_zdiv_nonneg_iff)
  moreover have "a div b \<le> a"
    using assms by (cases "a = 0") (simp_all add: int_div_le_self)
  ultimately have "wrap64 (a div b) = a div b"
    using assms by (intro wrap64_id) linarith+
  then show ?thesis
    using assms by (simp add: div64_def sdiv_nonneg)
qed

lemma sub64_between:
  "0 \<le> a - b \<Longrightarrow> a - b \<le> s \<Longrightarrow> s < 2 ^ 63 \<Longrightarrow> sub64 a b = a - b"
  unfolding sub64_def by (rule wrap64_id) linarith+

lemma mul64_between:
  "0 \<le> a * b \<Longrightarrow> a * b \<le> s \<Longrightarrow> s < 2 ^ 63 \<Longrightarrow> mul64 a b = a * b"
  unfolding mul64_def by (rule wrap64_id) linarith+

text \<open>
  On an input between \<open>0\<close> and \<open>2^63\<close> every intermediate value of \<^verbatim>\<open>SecondsToDate\<close>
  lies between \<open>0\<close> and the input, so nothing wraps, and the results are the digits of
  the input in the mixed radix 60, 60, 24, 7.
\<close>

lemma SecondsToDate_nonneg:
  assumes "0 \<le> s" "s < 2 ^ 63"
  shows "SecondsToDate (real_of_int s) =
    (s div 604800, (s div 86400) mod 7, (s div 3600) mod 24, (s div 60) mod 60, s mod 60)"
proof -
  define weeks where "weeks = s div 604800"
  define days where "days = (s div 86400) mod 7"
  define hours where "hours = (s div 3600) mod 24"
  define minutes where "minutes = (s div 60) mod 60"
  define sec where "sec = s mod 60"
  have "s div 604800 = (s div 86400) div 7" "s div 86400 = (s div 3600) div 24"
    "s div 3600 = (s div 60) div 60"
    by (simp_all add: zdiv_zmult2_eq [symmetric])
  then have dd: "s div 86400 = 7 * weeks + days"
    and hh: "s div 3600 = 24 * (s div 86400) + hours"
    and mm: "s div 60 = 60 * (s div 3600) + minutes"
    and ss: "s = 60 * (s div 60) + sec"
    unfolding weeks_def days_def hours_def minutes_def sec_def by simp_all
  have d1: "s div 86400 = 7 * weeks + days"
    and h1: "s div 3600 = 168 * weeks + 24 * days + hours"
    and m1: "s div 60 = 10080 * weeks + 1440 * days + 60 * hours + minutes"
    and tot: "s = 604800 * weeks + 86400 * days + 3600 * hours + 60 * minutes + sec"
    using dd hh mm ss by linarith+
  have rng: "0 \<le> weeks" "0 \<le> days" "days < 7" "0 \<le> hours" "hours < 24"
    "0 \<le> minutes" "minutes < 60" "0 \<le> sec" "sec < 60"
    using assms(1) unfolding weeks_def days_def hours_def minutes_def sec_def
    by (simp_all add: pos_imp_zdiv_nonneg_iff)
  note lt = assms(2)
  have seconds: "int_of_float64 (real_of_int s) = s"
    using assms by (simp add: int_of_float64_of_int)
  have w: "div64 s (7*24*60*60) = weeks"
    using assms by (simp add: div64_nonneg weeks_def)
  have d0: "div64 s (24*60*60) = 7 * weeks + days"
    using assms by (simp add: div64_nonneg d1)
  have h0: "div64 s (60*60) = 168 * weeks + 24 * days + hours"
    using assms by (simp add: div64_nonneg h1)
  have m0: "div64 s 60 = 10080 * weeks + 1440 * days + 60 * hours + minutes"
    using assms by (simp add: div64_nonneg m1)
  have mul: "mul64 7 weeks = 7 * weeks" "mul64 (7*24) weeks = 168 * weeks"
    "mul64 24 days = 24 * days" "mul64 (7*24*60) weeks = 10080 * weeks"
    "mul64 (24*60) days = 1440 * days" "mul64 60 hours = 60 * hours"
    "mul64 (7*24*60*60) weeks = 604800 * weeks" "mul64 (24*60*60) days = 86400 * days"
    "mul64 (60*60) hours = 3600 * hours" "mul64 60 minutes = 60 * minutes"
    using mul64_between [OF _ _ lt, of 7 weeks] mul64_between [OF _ _ lt, of 168 weeks]
      mul64_between [OF _ _ lt, of 24 days] mul64_between [OF _ _ lt, of 10080 weeks]
      mul64_between [OF _ _ lt, of 1440 days] mul64_between [OF _ _ lt, of 60 hours]
      mul64_between [OF _ _ lt, of 604800 weeks] mul64_between [OF _ _ lt, of 86400 days]
      mul64_between [OF _ _ lt, of 3600 hours] mul64_between [OF _ _ lt, of 60 minutes]
      tot rng
    by simp_all
  have days_eq: "sub64 (7 * weeks + days) (7 * weeks) = days"
    using sub64_between [OF _ _ lt, of "7 * weeks + days" "7 * weeks"] tot rng by simp
  have hours_1: "sub64 (168 * weeks + 24 * days + hours) (168 * weeks) = 24 * days + hours"
    using sub64_between [OF _ _ lt, of "168 * weeks + 24 * days + hours" "168 * weeks"]
      tot rng by simp
  have hours_eq: "sub64 (24 * days + hours) (24 * days) = hours"
    using sub64_between [OF _ _ lt, of "24 * days + hours" "24 * days"] tot rng by simp
  have minutes_1: "sub64 (10080 * weeks + 1440 * days + 60 * hours + minutes) (10080 * weeks)
      = 1440 * days + 60 * hours + minutes"
    using sub64_between [OF _ _ lt,
        of "10080 * weeks + 1440 * days + 60 * hours + minutes" "10080 * weeks"]
      tot rng by simp
  have minutes_2: "sub64 (1440 * days + 60 * hours + minutes) (1440 * days)
      = 60 * hours + minutes"
    using sub64_between [OF _ _ lt, of "1440 * days + 60 * hours + minutes" "1440 * days"]
      tot rng by simp
  have minutes_eq: "sub64 (60 * hours + minutes) (60 * hours) = minutes"
    using sub64_between [OF _ _ lt, of "60 * hours + minutes" "60 * hours"] tot rng by simp
  have seconds_1: "sub64 s (604800 * weeks) = 86400 * days + 3600 * hours + 60 * minutes + sec"
    using sub64_between [OF _ _ lt, of s "604800 * weeks"] tot rng by simp
  have seconds_2: "sub64 (86400 * days + 3600 * hours + 60 * minutes + sec) (86400 * days)
      = 3600 * hours + 60 * minutes + sec"
    using sub64_between [OF _ _ lt,
        of "86400 * days + 3600 * hours + 60 * minutes + sec" "86400 * days"]
      tot rng by simp
  have seconds_3: "sub64 (3600 * hours + 60 * minutes + sec) (3600 * hours) = 60 * minutes + sec"
    using sub64_between [OF _ _ lt, of "3600 * hours + 60 * minutes + sec" "3600 * hours"]
      tot rng by simp
  have seconds_eq: "sub64 (60 * minutes + sec) (60 * minutes) = sec"
    using sub64_between [OF _ _ lt, of "60 * minutes + sec" "60 * minutes"] tot rng by simp
  have "SecondsToDate (real_of_int s) = (weeks, days, hours, minutes, sec)"
    unfolding SecondsToDate_def Let_def seconds w d0 h0 m0 mul
      days_eq hours_1 hours_eq minutes_1 minutes_2 minutes_eq
      seconds_1 seconds_2 seconds_3 seconds_eq
    by (rule refl)
  then show ?thesis
    unfolding weeks_def days_def hours_def minutes_def sec_def .
qed

section \<open>The operations, field by field\<close>

text \<open>
  Each statement of \<^verbatim>\<open>EndWithStatus\<close> writes one field of the store and reads no field
  that an earlier statement wrote but its own. So the function is one update of the
  store it was given; the two statements on \<^verbatim>\<open>URLLowestResponse\<close> are the two steps of
  the last field.
\<close>

lemma EndWithStatus_fields:
  "EndWithStatus end' now start status url method useragent mw =
     (let responseTime = Time_Sub end' start;
          statusCode = Sprintf_d status
      in mw\<lparr>ResponseCounts := incr (ResponseCounts mw) statusCode,
            TotalResponseCounts := incr (TotalResponseCounts mw) statusCode,
            TotalResponseTime := Time_Add (TotalResponseTime mw) responseTime,
            URLRequestCounts := incr (URLRequestCounts mw) url,
            URLRequestLatency :=
              assign (URLRequestLatency mw) url
                (add64 (index (URLRequestLatency mw) url) responseTime),
            RequestTypeCounts := incr (RequestTypeCounts mw) method,
            UserAgentCounts := incr (UserAgentCounts mw) useragent,
            MaxResponseTime :=
              (if ResponseDuration (MaxResponseTime mw) < responseTime
               then (MaxResponseTime mw)
                      \<lparr>ResponseDuration := responseTime,
                       ResponseURL := url,
                       ResponseTime := now,
                       RepsonseMethod := method\<rparr>
               else MaxResponseTime mw),
            URLHighestResponse :=
              (if index (URLHighestResponse mw) url < float64_of_int64 responseTime
               then assign (URLHighestResponse mw) url (float64_of_int64 responseTime)
               else URLHighestResponse mw),
            URLLowestResponse :=
              (let lowest =
                     (if index (URLLowestResponse mw) url = 0
                      then assign (URLLowestResponse mw) url (float64_of_int64 responseTime)
                      else URLLowestResponse mw)
               in if float64_of_int64 responseTime < index lowest url
                  then assign lowest url (float64_of_int64 responseTime)
                  else lowest)\<rparr>)"
  unfolding Let_def
  unfolding EndWithStatus_def
  apply (subst Let_def)
  apply (subst Let_def)
  apply simp
  done

text \<open>
  \<^verbatim>\<open>Data\<close> writes the two derived fields of the peak record and nothing else; the snapshot
  reads the other fields as the store had them.
\<close>

lemma Data_fields:
  "Data now now' mw =
     (let uptime = Time_Sub now (Uptime mw);
          count = foldl (\<lambda>count (_, current). add64 count current) 0 (ResponseCounts mw);
          totalCount = foldl (\<lambda>totalCount (_, count). add64 totalCount count) 0
                         (TotalResponseCounts mw);
          totalResponseTime = Time_Sub (TotalResponseTime mw) 0;
          averageResponseTime =
            (if 0 < totalCount then div64 totalResponseTime totalCount else 0);
          duration = Time_Sub now' (ResponseTime (MaxResponseTime mw));
          (weeks, days, hours, minutes, seconds) =
            SecondsToDate (Round (Duration_Seconds duration) 0);
          peak = (MaxResponseTime mw)
                   \<lparr>ResponseSeconds := Duration_Seconds (ResponseDuration (MaxResponseTime mw)),
                    ResponseSince :=
                      \<lparr>Weeks = weeks, Days = days, Hours = hours, Minutes = minutes,
                       Seconds = seconds\<rparr>\<rparr>;
          r = \<lparr>data_Pid = Pid mw,
               data_UpTime = uptime,
               data_UpTimeSec = Duration_Seconds uptime,
               data_Time = now,
               data_TimeUnix = Time_Unix now,
               data_StatusCodeCount = ResponseCounts mw,
               data_TotalStatusCodeCount = TotalResponseCounts mw,
               data_Count = count,
               data_TotalCount = totalCount,
               data_TotalResponseTime = totalResponseTime,
               data_TotalResponseTimeSec = Duration_Seconds totalResponseTime,
               data_AverageResponseTime = averageResponseTime,
               data_AverageResponseTimeSec = Duration_Seconds averageResponseTime,
               data_URLRequestCounts = URLRequestCounts mw,
               data_RequestTypeCounts = RequestTypeCounts mw,
               data_UserAgentCounts = UserAgentCounts mw,
               data_URLRequestLatency = URLRequestLatency mw,
               data_URLHighestResponse = URLHighestResponse mw,
               data_URLLowestResponse = URLLowestResponse mw,
               data_MaxResponseTime = peak\<rparr>
      in (r, mw\<lparr>MaxResponseTime := peak\<rparr>))"
  unfolding Data_def Let_def
  by (cases "ResponseSince (MaxResponseTime mw)") (simp split: prod.splits)

section \<open>The duration decomposition\<close>

text \<open>
  Claim C1. For every non-negative integer \<open>s\<close> that a Go \<^verbatim>\<open>int\<close> holds, the call
  \<^verbatim>\<open>SecondsToDate(s)\<close> returns weeks, days, hours, minutes and seconds with
  \<open>weeks*604800 + days*86400 + hours*3600 + minutes*60 + seconds = s\<close>, the days in
  \<open>[0,6]\<close>, the hours in \<open>[0,23]\<close>, the minutes and the seconds in \<open>[0,59]\<close>; the weeks
  are not negative either. No operation of the function wraps around on such an input.
\<close>

theorem SecondsToDate_decomposition:
  assumes "0 \<le> s" and "s < 2 ^ 63"
    and "SecondsToDate (real_of_int s) = (weeks, days, hours, minutes, seconds_out)"
  shows "weeks * 604800 + days * 86400 + hours * 3600 + minutes * 60 + seconds_out = s
    \<and> 0 \<le> weeks
    \<and> 0 \<le> days \<and> days \<le> 6
    \<and> 0 \<le> hours \<and> hours \<le> 23
    \<and> 0 \<le> minutes \<and> minutes \<le> 59
    \<and> 0 \<le> seconds_out \<and> seconds_out \<le> 59"
proof -
  have eqs: "weeks = s div 604800" "days = (s div 86400) mod 7" "hours = (s div 3600) mod 24"
    "minutes = (s div 60) mod 60" "seconds_out = s mod 60"
    using assms(3) unfolding SecondsToDate_nonneg [OF assms(1,2)] by simp_all
  have "s div 604800 = (s div 86400) div 7" "s div 86400 = (s div 3600) div 24"
    "s div 3600 = (s div 60) div 60"
    by (simp_all add: zdiv_zmult2_eq [symmetric])
  then have "s div 86400 = 7 * weeks + days" "s div 3600 = 24 * (s div 86400) + hours"
    "s div 60 = 60 * (s div 3600) + minutes" "s = 60 * (s div 60) + seconds_out"
    unfolding eqs by simp_all
  then have "weeks * 604800 + days * 86400 + hours * 3600 + minutes * 60 + seconds_out = s"
    by linarith
  moreover have "0 \<le> weeks"
    using assms(1) unfolding eqs by (simp add: pos_imp_zdiv_nonneg_iff)
  moreover have "0 \<le> days \<and> days \<le> 6" "0 \<le> hours \<and> hours \<le> 23"
    "0 \<le> minutes \<and> minutes \<le> 59" "0 \<le> seconds_out \<and> seconds_out \<le> 59"
    unfolding eqs by simp_all
  ultimately show ?thesis
    by simp
qed

theorem SecondsToDate_decomposition_witness:
  "SecondsToDate (real_of_int 1000000) = (1, 4, 13, 46, 40)
   \<and> (1::int) * 604800 + 4 * 86400 + 13 * 3600 + 46 * 60 + 40 = 1000000"
proof -
  have h: "SecondsToDate (real_of_int 1000000) = (1, 4, 13, 46, 40)"
    by code_simp
  show ?thesis
    using h SecondsToDate_decomposition [OF _ _ h] by simp
qed

section \<open>Counting requests\<close>

lemma wrap64_wrap64_add: "wrap64 (wrap64 a + b) = wrap64 (a + b)"
proof -
  have "(wrap64 a + b + 2 ^ 63) mod 2 ^ 64 = (a + b + 2 ^ 63) mod 2 ^ 64"
    unfolding wrap64_def by (simp add: algebra_simps mod_simps)
  then show ?thesis
    unfolding wrap64_def [of "wrap64 a + b"] wrap64_def [of "a + b"] by simp
qed

lemma foldl_add64:
  "foldl (\<lambda>c (k, v). add64 c v) (wrap64 a) m = wrap64 (a + sum_list (map snd m))"
proof (induction m arbitrary: a)
  case Nil
  then show ?case by simp
next
  case (Cons p m)
  obtain k v where p: "p = (k, v)" by (cases p)
  have "foldl (\<lambda>c (k, v). add64 c v) (wrap64 a) (p # m)
      = foldl (\<lambda>c (k, v). add64 c v) (wrap64 (a + v)) m"
    by (simp add: p add64_def wrap64_wrap64_add)
  also have "\<dots> = wrap64 (a + v + sum_list (map snd m))"
    by (rule Cons.IH)
  finally show ?case
    by (simp add: p add.assoc)
qed

lemma foldl_add64_0:
  "foldl (\<lambda>c (k, v). add64 c v) 0 m = wrap64 (sum_list (map snd m))"
  using foldl_add64 [of 0 m] by (simp add: wrap64_def)

text \<open>
  The loops over a map add up its values with wrap-around, so the order in which Go
  visits the entries does not matter.
\<close>

lemma range_order_immaterial:
  assumes "mset m = mset m'"
  shows "foldl (\<lambda>c (k, v). add64 c v) 0 m = foldl (\<lambda>c (k, v). add64 c v) 0 m'"
proof -
  have "sum_list (map snd m) = sum_mset (image_mset snd (mset m))" for m :: "('a \<times> int) list"
    by (metis mset_map sum_mset_sum_list)
  with assms have "sum_list (map snd m) = sum_list (map snd m')"
    by simp
  then show ?thesis
    by (simp add: foldl_add64_0)
qed

lemma sum_list_update:
  fixes m :: "('k \<times> int) list"
  shows "sum_list (map snd (AList.update k v m)) = sum_list (map snd m) - index m k + v"
  by (induction m) (auto simp: index_def)

lemma set_update:
  "p \<in> set (AList.update k v m) \<Longrightarrow> p = (k, v) \<or> p \<in> set m"
  by (induction m) (auto split: if_splits)

lemma index_bounds:
  fixes m :: "('k \<times> int) list"
  assumes "\<forall>p\<in>set m. 0 \<le> snd p"
  shows "0 \<le> index m k \<and> index m k \<le> sum_list (map snd m)"
  using assms
proof (induction m)
  case Nil
  then show ?case by (simp add: index_def)
next
  case (Cons p m)
  then have ih: "0 \<le> index m k \<and> index m k \<le> sum_list (map snd m)" and p: "0 \<le> snd p"
    by simp_all
  have "index (p # m) k = (if fst p = k then snd p else index m k)"
    by (cases p) (simp add: index_def)
  moreover have "0 \<le> sum_list (map snd m)"
    using ih by linarith
  ultimately show ?case
    using ih p by auto
qed

lemma counts_incr:
  assumes "counts m n" and "n + 1 < 2 ^ 63"
  shows "counts (incr m k) (n + 1)"
proof -
  from assms(1) have nn: "\<forall>p\<in>set m. 0 \<le> snd p" and s: "sum_list (map snd m) = n"
    by (simp_all add: counts_def)
  from index_bounds [OF nn, of k] s have b: "0 \<le> index m k" "index m k \<le> n"
    by simp_all
  then have a: "add64 (index m k) 1 = index m k + 1"
    using assms(2) unfolding add64_def by (intro wrap64_id) linarith+
  have "sum_list (map snd (incr m k)) = n + 1"
    unfolding incr_def assign_def a sum_list_update s by simp
  moreover have "\<forall>p\<in>set (incr m k). 0 \<le> snd p"
  proof
    fix p assume "p \<in> set (incr m k)"
    then have "p = (k, index m k + 1) \<or> p \<in> set m"
      unfolding incr_def assign_def a by (rule set_update)
    then show "0 \<le> snd p"
      using b nn by auto
  qed
  ultimately show ?thesis
    by (simp add: counts_def)
qed

lemma EndWithStatus_TotalResponseCounts:
  "TotalResponseCounts (EndWithStatus end' now start status url method useragent mw)
    = incr (TotalResponseCounts mw) (Sprintf_d status)"
  by (simp add: EndWithStatus_fields Let_def)

lemma EndWithStatus_ResponseCounts:
  "ResponseCounts (EndWithStatus end' now start status url method useragent mw)
    = incr (ResponseCounts mw) (Sprintf_d status)"
  by (simp add: EndWithStatus_fields Let_def)

lemma run_snoc: "run mw (evs @ [ev]) = step (run mw evs) ev"
  by (simp add: run_def)

lemma elapsed_snoc:
  "elapsed (evs @ [ev]) =
     elapsed evs @ (case ev of Request end' now start status url method useragent \<Rightarrow>
        [Time_Sub end' start] | _ \<Rightarrow> [])"
  by (induction evs rule: elapsed.induct) (auto split: event.splits)

lemma step_TotalResponseCounts:
  "TotalResponseCounts (step mw ev) =
     (case ev of Request end' now start status url method useragent \<Rightarrow>
        incr (TotalResponseCounts mw) (Sprintf_d status) | _ \<Rightarrow> TotalResponseCounts mw)"
  by (cases ev)
    (simp_all add: EndWithStatus_TotalResponseCounts ResetResponseCounts_def
      Data_fields Let_def split: prod.splits)

lemma step_ResponseCounts:
  "ResponseCounts (step mw ev) =
     (case ev of Request end' now start status url method useragent \<Rightarrow>
        incr (ResponseCounts mw) (Sprintf_d status) | Tick \<Rightarrow> []
      | Export now now' \<Rightarrow> ResponseCounts mw)"
  by (cases ev)
    (simp_all add: EndWithStatus_ResponseCounts ResetResponseCounts_def
      Data_fields Let_def split: prod.splits)

lemma run_TotalResponseCounts:
  "int (length (elapsed evs)) < 2 ^ 63 \<Longrightarrow>
   counts (TotalResponseCounts (run (New t pid) evs)) (int (length (elapsed evs)))"
proof (induction evs rule: rev_induct)
  case Nil
  then show ?case
    by (simp add: run_def New_def counts_def)
next
  case (snoc ev evs)
  show ?case
  proof (cases ev)
    case (Request end' now start status url meth useragent)
    with snoc.prems have n: "int (length (elapsed evs)) + 1 < 2 ^ 63"
      by (simp add: elapsed_snoc)
    then have "counts (TotalResponseCounts (run (New t pid) evs)) (int (length (elapsed evs)))"
      by (intro snoc.IH) linarith
    from counts_incr [OF this n] show ?thesis
      by (simp add: Request run_snoc elapsed_snoc EndWithStatus_TotalResponseCounts add.commute)
  next
    case Tick
    with snoc show ?thesis
      by (simp add: run_snoc elapsed_snoc step_TotalResponseCounts del: step.simps)
  next
    case (Export now now')
    with snoc show ?thesis
      by (simp add: run_snoc elapsed_snoc step_TotalResponseCounts del: step.simps)
  qed
qed

lemma run_ResponseCounts:
  "int (length (elapsed evs)) < 2 ^ 63 \<Longrightarrow> Tick \<notin> set evs \<Longrightarrow>
   counts (ResponseCounts (run (New t pid) evs)) (int (length (elapsed evs)))"
proof (induction evs rule: rev_induct)
  case Nil
  then show ?case
    by (simp add: run_def New_def counts_def)
next
  case (snoc ev evs)
  show ?case
  proof (cases ev)
    case (Request end' now start status url meth useragent)
    with snoc.prems have n: "int (length (elapsed evs)) + 1 < 2 ^ 63"
      by (simp add: elapsed_snoc)
    then have "counts (ResponseCounts (run (New t pid) evs)) (int (length (elapsed evs)))"
      using snoc.prems by (intro snoc.IH) simp_all
    from counts_incr [OF this n] show ?thesis
      by (simp add: Request run_snoc elapsed_snoc EndWithStatus_ResponseCounts add.commute)
  next
    case Tick
    with snoc.prems show ?thesis
      by simp
  next
    case (Export now now')
    with snoc show ?thesis
      by (simp add: run_snoc elapsed_snoc step_ResponseCounts del: step.simps)
  qed
qed

lemma Data_TotalCount:
  "data_TotalCount (fst (Data now now' mw)) = wrap64 (sum_list (map snd (TotalResponseCounts mw)))"
  by (simp add: Data_fields Let_def foldl_add64_0 split: prod.splits)

lemma Data_Count:
  "data_Count (fst (Data now now' mw)) = wrap64 (sum_list (map snd (ResponseCounts mw)))"
  by (simp add: Data_fields Let_def foldl_add64_0 split: prod.splits)

lemma Data_TotalStatusCodeCount:
  "data_TotalStatusCodeCount (fst (Data now now' mw)) = TotalResponseCounts mw"
  by (simp add: Data_fields Let_def split: prod.splits)

text \<open>
  Claim C2. After any run from a new store in which \<open>N\<close> requests are recorded (window
  resets and exports may come between them, and \<open>N\<close> is below \<open>2^63\<close>, the range of a Go
  \<^verbatim>\<open>int\<close>), the snapshot's cumulative status counts add up to \<open>N\<close> and its total count is
  \<open>N\<close>. When no window reset is part of the run, the window count is \<open>N\<close> as well.
\<close>

theorem total_count_is_number_of_requests:
  assumes "int (length (elapsed evs)) < 2 ^ 63"
  shows "sum_list (map snd (data_TotalStatusCodeCount (fst (Data now now' (run (New t pid) evs)))))
      = int (length (elapsed evs))
    \<and> data_TotalCount (fst (Data now now' (run (New t pid) evs))) = int (length (elapsed evs))
    \<and> (Tick \<notin> set evs \<longrightarrow>
         data_Count (fst (Data now now' (run (New t pid) evs))) = int (length (elapsed evs)))"
proof -
  have w: "wrap64 (int (length (elapsed evs))) = int (length (elapsed evs))"
    using assms by (intro wrap64_id) linarith+
  from run_TotalResponseCounts [OF assms, of t pid]
  have total: "sum_list (map snd (TotalResponseCounts (run (New t pid) evs)))
      = int (length (elapsed evs))"
    by (simp add: counts_def)
  have "data_Count (fst (Data now now' (run (New t pid) evs))) = int (length (elapsed evs))"
    if "Tick \<notin> set evs"
    using run_ResponseCounts [OF assms that, of t pid] w
    by (simp add: counts_def Data_Count)
  with total w show ?thesis
    by (simp add: Data_TotalCount Data_TotalStatusCodeCount)
qed

theorem total_count_is_number_of_requests_witness:
  "int (length (elapsed
     [Request 110 111 100 200 ''/a'' ''GET'' ''curl'', Tick,
      Request 250 251 200 404 ''/b'' ''POST'' ''curl'', Export 300 301,
      Request 305 306 300 200 ''/a'' ''GET'' ''wget''])) < 2 ^ 63
   \<and> data_TotalStatusCodeCount (fst (Data 400 401 (run (New 5 1)
     [Request 110 111 100 200 ''/a'' ''GET'' ''curl'', Tick,
      Request 250 251 200 404 ''/b'' ''POST'' ''curl'', Export 300 301,
      Request 305 306 300 200 ''/a'' ''GET'' ''wget'']))) = [(''200'', 2), (''404'', 1)]
   \<and> data_TotalCount (fst (Data 400 401 (run (New 5 1)
     [Request 110 111 100 200 ''/a'' ''GET'' ''curl'', Tick,
      Request 250 251 200 404 ''/b'' ''POST'' ''curl'', Export 300 301,
      Request 305 306 300 200 ''/a'' ''GET'' ''wget'']))) = 3
   \<and> Tick \<notin> set [Request 110 111 100 200 ''/a'' ''GET'' ''curl'', Export 300 301,
      Request 250 251 200 404 ''/b'' ''POST'' ''curl'']
   \<and> data_Count (fst (Data 400 401 (run (New 5 1)
     [Request 110 111 100 200 ''/a'' ''GET'' ''curl'', Export 300 301,
      Request 250 251 200 404 ''/b'' ''POST'' ''curl'']))) = 2"
proof -
  let ?evs = "[Request 110 111 100 200 ''/a'' ''GET'' ''curl'', Tick,
      Request 250 251 200 404 ''/b'' ''POST'' ''curl'', Export 300 301,
      Request 305 306 300 200 ''/a'' ''GET'' ''wget'']"
  let ?evs' = "[Request 110 111 100 200 ''/a'' ''GET'' ''curl'', Export 300 301,
      Request 250 251 200 404 ''/b'' ''POST'' ''curl'']"
  have h: "int (length (elapsed ?evs)) < 2 ^ 63" and h': "int (length (elapsed ?evs')) < 2 ^ 63"
    by simp_all
  have m: "data_TotalStatusCodeCount (fst (Data 400 401 (run (New 5 1) ?evs)))
      = [(''200'', 2), (''404'', 1)]"
    by code_simp
  show ?thesis
    using h m total_count_is_number_of_requests [OF h, of 400 401 5 1]
      total_count_is_number_of_requests [OF h', of 400 401 5 1]
    by simp
qed

section \<open>The peak record\<close>

lemma EndWithStatus_MaxResponseTime:
  "MaxResponseTime (EndWithStatus end' now start status url method useragent mw) =
     (if ResponseDuration (MaxResponseTime mw) < Time_Sub end' start
      then (MaxResponseTime mw)
        \<lparr>ResponseDuration := Time_Sub end' start, ResponseURL := url, ResponseTime := now,
         RepsonseMethod := method\<rparr>
      else MaxResponseTime mw)"
  by (simp add: EndWithStatus_fields Let_def)

lemma Data_MaxResponseTime:
  "MaxResponseTime (snd (Data now now' mw)) =
     (MaxResponseTime mw)
       \<lparr>ResponseSeconds := Duration_Seconds (ResponseDuration (MaxResponseTime mw)),
        ResponseSince :=
          (case SecondsToDate
             (Round (Duration_Seconds (Time_Sub now' (ResponseTime (MaxResponseTime mw)))) 0)
           of (weeks, days, hours, minutes, seconds) \<Rightarrow>
             \<lparr>Weeks = weeks, Days = days, Hours = hours, Minutes = minutes,
              Seconds = seconds\<rparr>)\<rparr>"
  by (simp add: Data_fields Let_def split: prod.splits)

lemma step_peak:
  "ResponseDuration (MaxResponseTime (step mw ev)) =
     (case ev of Request end' now start status url method useragent \<Rightarrow>
        max (ResponseDuration (MaxResponseTime mw)) (Time_Sub end' start)
      | _ \<Rightarrow> ResponseDuration (MaxResponseTime mw))"
  by (cases ev)
    (simp_all add: EndWithStatus_MaxResponseTime Data_MaxResponseTime ResetResponseCounts_def)

lemma run_peak:
  "ResponseDuration (MaxResponseTime (run mw evs)) =
     Max (insert (ResponseDuration (MaxResponseTime mw)) (set (elapsed evs)))"
proof (induction evs rule: rev_induct)
  case Nil
  then show ?case
    by (simp add: run_def)
next
  case (snoc ev evs)
  show ?case
  proof (cases ev)
    case (Request end' now start status url meth useragent)
    have "Max (insert (ResponseDuration (MaxResponseTime mw))
          (insert (Time_Sub end' start) (set (elapsed evs))))
        = max (Time_Sub end' start)
            (Max (insert (ResponseDuration (MaxResponseTime mw)) (set (elapsed evs))))"
      by (subst insert_commute) simp
    with snoc show ?thesis
      by (simp add: Request run_snoc elapsed_snoc step_peak max.commute del: step.simps)
  next
    case Tick
    with snoc show ?thesis
      by (simp add: run_snoc elapsed_snoc step_peak del: step.simps)
  next
    case (Export now now')
    with snoc show ?thesis
      by (simp add: run_snoc elapsed_snoc step_peak del: step.simps)
  qed
qed

lemma Data_peak:
  "data_MaxResponseTime (fst (Data now now' mw)) = MaxResponseTime (snd (Data now now' mw))"
  by (simp add: Data_fields Let_def split: prod.splits)

text \<open>
  Claim C3. After any run from a new store, the duration of the peak record is the
  greatest of \<open>0\<close> (the duration of the initial record) and the elapsed durations of
  the requests recorded so far; when a request has been recorded and no elapsed duration
  is negative, it is the greatest elapsed duration. Recording, in any store, a request
  whose elapsed duration is at most the peak's leaves the whole peak record as it was:
  its url, its method, its duration and the rest.
\<close>

theorem peak_is_maximum_elapsed:
  "ResponseDuration (MaxResponseTime (run (New t pid) evs)) = Max (insert 0 (set (elapsed evs)))
   \<and> (elapsed evs \<noteq> [] \<and> (\<forall>e\<in>set (elapsed evs). 0 \<le> e) \<longrightarrow>
        ResponseDuration (MaxResponseTime (run (New t pid) evs)) = Max (set (elapsed evs)))
   \<and> (Time_Sub end' start \<le> ResponseDuration (MaxResponseTime mw) \<longrightarrow>
        MaxResponseTime (EndWithStatus end' now start status url method useragent mw)
          = MaxResponseTime mw)"
proof -
  have peak: "ResponseDuration (MaxResponseTime (run (New t pid) evs))
      = Max (insert 0 (set (elapsed evs)))"
    using run_peak [of "New t pid" evs] by (simp add: New_def)
  have "Max (insert 0 (set (elapsed evs))) = Max (set (elapsed evs))"
    if ne: "elapsed evs \<noteq> []" and nonneg: "\<forall>e\<in>set (elapsed evs). 0 \<le> e"
  proof -
    from ne obtain x where x: "x \<in> set (elapsed evs)"
      by (cases "elapsed evs") auto
    with nonneg have "0 \<le> x" and "x \<le> Max (set (elapsed evs))"
      by simp_all
    then have "0 \<le> Max (set (elapsed evs))"
      by linarith
    moreover from x have "set (elapsed evs) \<noteq> {}"
      by auto
    ultimately show ?thesis
      by (simp add: max_def)
  qed
  with peak show ?thesis
    by (simp add: EndWithStatus_MaxResponseTime)
qed

theorem peak_is_maximum_elapsed_witness:
  "elapsed [Request 110 111 100 200 ''/a'' ''GET'' ''curl'', Tick,
      Request 250 251 200 404 ''/b'' ''POST'' ''curl'', Export 300 301,
      Request 305 306 300 200 ''/a'' ''GET'' ''wget''] = [10, 50, 5]
   \<and> ResponseDuration (MaxResponseTime (run (New 5 1)
       [Request 110 111 100 200 ''/a'' ''GET'' ''curl'', Tick,
        Request 250 251 200 404 ''/b'' ''POST'' ''curl'', Export 300 301,
        Request 305 306 300 200 ''/a'' ''GET'' ''wget''])) = Max (set [10, 50, 5])
   \<and> ResponseDuration (MaxResponseTime (run (New 5 1)
       [Request 110 111 100 200 ''/a'' ''GET'' ''curl'', Tick,
        Request 250 251 200 404 ''/b'' ''POST'' ''curl'', Export 300 301,
        Request 305 306 300 200 ''/a'' ''GET'' ''wget''])) = 50
   \<and> Time_Sub 305 300 = 5
   \<and> ResponseDuration (MaxResponseTime (run (New 5 1)
       [Request 110 111 100 200 ''/a'' ''GET'' ''curl'', Tick,
        Request 250 251 200 404 ''/b'' ''POST'' ''curl'', Export 300 301])) = 50
   \<and> MaxResponseTime (EndWithStatus 305 306 300 200 ''/a'' ''GET'' ''wget''
         (run (New 5 1)
           [Request 110 111 100 200 ''/a'' ''GET'' ''curl'', Tick,
            Request 250 251 200 404 ''/b'' ''POST'' ''curl'', Export 300 301]))
       = MaxResponseTime (run (New 5 1)
           [Request 110 111 100 200 ''/a'' ''GET'' ''curl'', Tick,
            Request 250 251 200 404 ''/b'' ''POST'' ''curl'', Export 300 301])"
proof -
  let ?evs = "[Request 110 111 100 200 ''/a'' ''GET'' ''curl'', Tick,
      Request 250 251 200 404 ''/b'' ''POST'' ''curl'', Export 300 301]"
  let ?ev = "Request 305 306 300 200 ''/a'' ''GET'' ''wget''"
  have e: "elapsed (?evs @ [?ev]) = [10, 50, 5]" and e': "elapsed ?evs = [10, 50]"
    and d: "Time_Sub 305 300 = 5"
    by code_simp+
  have nonneg: "[10, 50, 5] \<noteq> [] \<and> (\<forall>e\<in>set [10, 50, 5 :: int]. 0 \<le> e)"
    by simp
  have m: "Max (set [10, 50, 5 :: int]) = 50" "Max (insert 0 (set [10, 50 :: int])) = 50"
    by simp_all
  have all: "ResponseDuration (MaxResponseTime (run (New 5 1) (?evs @ [?ev])))
      = Max (set [10, 50, 5])"
    using peak_is_maximum_elapsed [of 5 1 "?evs @ [?ev]"] nonneg unfolding e by blast
  have p: "ResponseDuration (MaxResponseTime (run (New 5 1) ?evs)) = 50"
    using peak_is_maximum_elapsed [of 5 1 "?evs"] unfolding e' m by blast
  have "MaxResponseTime (EndWithStatus 305 306 300 200 ''/a'' ''GET'' ''wget''
      (run (New 5 1) ?evs)) = MaxResponseTime (run (New 5 1) ?evs)"
    using peak_is_maximum_elapsed [of 5 1 "?evs" 305 300 "run (New 5 1) ?evs"
      306 200 "''/a''" "''GET''" "''wget''"] unfolding d p by simp
  with all p show ?thesis
    using e d m by simp
qed

text \<open>
  Claim C7, as the claim states it, fails: the update leaves the two derived fields of
  the peak record alone. After a request of one second has been recorded and exported an
  hour later, recording a request of two seconds gives a peak record with the duration
  of two seconds whose \<^verbatim>\<open>ResponseSeconds\<close> is still \<open>1\<close> and whose \<^verbatim>\<open>ResponseSince\<close> is
  still one hour.
\<close>

theorem peak_derived_fields_counterexample:
  "ResponseDuration (MaxResponseTime (run (New 0 1)
       [Request 1000000000 1000000000 0 200 ''/a'' ''GET'' ''curl'',
        Export 3601000000000 3601000000000])) = 1000000000
   \<and> Time_Sub 3702000000000 3700000000000 = 2000000000
   \<and> ResponseDuration (MaxResponseTime
        (EndWithStatus 3702000000000 3702000000000 3700000000000 200 ''/b'' ''POST'' ''curl''
          (run (New 0 1)
            [Request 1000000000 1000000000 0 200 ''/a'' ''GET'' ''curl'',
             Export 3601000000000 3601000000000]))) = 2000000000
   \<and> ResponseSeconds (MaxResponseTime
        (EndWithStatus 3702000000000 3702000000000 3700000000000 200 ''/b'' ''POST'' ''curl''
          (run (New 0 1)
            [Request 1000000000 1000000000 0 200 ''/a'' ''GET'' ''curl'',
             Export 3601000000000 3601000000000]))) = 1
   \<and> Duration_Seconds 2000000000 = 2
   \<and> ResponseSince (MaxResponseTime
        (EndWithStatus 3702000000000 3702000000000 3700000000000 200 ''/b'' ''POST'' ''curl''
          (run (New 0 1)
            [Request 1000000000 1000000000 0 200 ''/a'' ''GET'' ''curl'',
             Export 3601000000000 3601000000000])))
       = \<lparr>Weeks = 0, Days = 0, Hours = 1, Minutes = 0, Seconds = 0\<rparr>"
  by code_simp

text \<open>
  Claim C7, amended. When the update records an elapsed duration strictly larger than
  the peak's, the url, the method, the duration and the time of observation of the peak
  record become those of the new request; \<^verbatim>\<open>ResponseSeconds\<close> and \<^verbatim>\<open>ResponseSince\<close> keep
  their values, and the next export computes them from the new duration and time of
  observation.
\<close>

theorem peak_replaced_on_larger_duration:
  assumes "ResponseDuration (MaxResponseTime mw) < Time_Sub end' start"
  shows "MaxResponseTime (EndWithStatus end' now start status url method useragent mw) =
      \<lparr>ResponseURL = url, RepsonseMethod = method, ResponseDuration = Time_Sub end' start,
       ResponseTime = now,
       ResponseSeconds = ResponseSeconds (MaxResponseTime mw),
       ResponseSince = ResponseSince (MaxResponseTime mw)\<rparr>
    \<and> data_MaxResponseTime
        (fst (Data t t' (EndWithStatus end' now start status url method useragent mw))) =
      \<lparr>ResponseURL = url, RepsonseMethod = method, ResponseDuration = Time_Sub end' start,
       ResponseTime = now,
       ResponseSeconds = Duration_Seconds (Time_Sub end' start),
       ResponseSince =
         (case SecondsToDate (Round (Duration_Seconds (Time_Sub t' now)) 0)
          of (weeks, days, hours, minutes, seconds) \<Rightarrow>
            \<lparr>Weeks = weeks, Days = days, Hours = hours, Minutes = minutes,
             Seconds = seconds\<rparr>)\<rparr>"
proof -
  have peak: "MaxResponseTime (EndWithStatus end' now start status url method useragent mw) =
      \<lparr>ResponseURL = url, RepsonseMethod = method, ResponseDuration = Time_Sub end' start,
       ResponseTime = now,
       ResponseSeconds = ResponseSeconds (MaxResponseTime mw),
       ResponseSince = ResponseSince (MaxResponseTime mw)\<rparr>"
    using assms by (simp add: EndWithStatus_MaxResponseTime)
  show ?thesis
    unfolding Data_peak Data_MaxResponseTime peak by simp
qed

theorem peak_replaced_on_larger_duration_witness:
  "ResponseDuration (MaxResponseTime (run (New 0 1)
       [Request 1000000000 1000000000 0 200 ''/a'' ''GET'' ''curl'',
        Export 3601000000000 3601000000000])) < Time_Sub 3702000000000 3700000000000
   \<and> MaxResponseTime
        (EndWithStatus 3702000000000 3702000000001 3700000000000 200 ''/b'' ''POST'' ''curl''
          (run (New 0 1)
            [Request 1000000000 1000000000 0 200 ''/a'' ''GET'' ''curl'',
             Export 3601000000000 3601000000000])) =
      \<lparr>ResponseURL = ''/b'', RepsonseMethod = ''POST'', ResponseDuration = 2000000000,
       ResponseTime = 3702000000001, ResponseSeconds = 1,
       ResponseSince = \<lparr>Weeks = 0, Days = 0, Hours = 1, Minutes = 0, Seconds = 0\<rparr>\<rparr>
   \<and> data_MaxResponseTime (fst (Data 3800000000000 3762000000001
        (EndWithStatus 3702000000000 3702000000001 3700000000000 200 ''/b'' ''POST'' ''curl''
          (run (New 0 1)
            [Request 1000000000 1000000000 0 200 ''/a'' ''GET'' ''curl'',
             Export 3601000000000 3601000000000])))) =
      \<lparr>ResponseURL = ''/b'', RepsonseMethod = ''POST'', ResponseDuration = 2000000000,
       ResponseTime = 3702000000001, ResponseSeconds = 2,
       ResponseSince = \<lparr>Weeks = 0, Days = 0, Hours = 0, Minutes = 1, Seconds = 0\<rparr>\<rparr>"
proof -
  let ?mw = "run (New 0 1)
       [Request 1000000000 1000000000 0 200 ''/a'' ''GET'' ''curl'',
        Export 3601000000000 3601000000000]"
  have h: "ResponseDuration (MaxResponseTime ?mw) < Time_Sub 3702000000000 3700000000000"
    by code_simp
  have old: "ResponseSeconds (MaxResponseTime ?mw) = 1"
    "ResponseSince (MaxResponseTime ?mw)
      = \<lparr>Weeks = 0, Days = 0, Hours = 1, Minutes = 0, Seconds = 0\<rparr>"
    by code_simp+
  have new: "Time_Sub 3702000000000 3700000000000 = 2000000000"
    "Duration_Seconds 2000000000 = 2"
    "SecondsToDate (Round (Duration_Seconds (Time_Sub 3762000000001 3702000000001)) 0)
      = (0, 0, 0, 1, 0)"
    by code_simp+
  from peak_replaced_on_larger_duration [OF h,
      of 3702000000001 200 "''/b''" "''POST''" "''curl''" 3800000000000 3762000000001]
  show ?thesis
    using h unfolding old new by simp
qed

section \<open>The extreme latencies of a URL\<close>

lemma map_of_assign: "map_of (assign m k v) = (map_of m)(k \<mapsto> v)"
  by (simp add: assign_def update_conv')

lemma index_assign: "index (assign m k v) u = (if u = k then v else index m u)"
  by (simp add: index_def map_of_assign)

text \<open>
  The conversion of a duration to \<^verbatim>\<open>float64\<close> is exact below \<open>2^53\<close> nanoseconds (about
  104 days), and keeps the sign.
\<close>

lemma bit_length_le: "a < 2 ^ n \<Longrightarrow> bit_length a \<le> n"
proof (induction n arbitrary: a)
  case 0
  then show ?case
    by (simp add: bit_length.simps)
next
  case (Suc n)
  from Suc.prems have "a div 2 < 2 ^ n"
    by simp
  then have "bit_length (a div 2) \<le> n"
    by (rule Suc.IH)
  then show ?case
    by (subst bit_length.simps) simp
qed

lemma float64_of_int64_exact:
  assumes "\<bar>i\<bar> < 2 ^ 53"
  shows "float64_of_int64 i = real_of_int i"
proof -
  from assms have "bit_length \<bar>i\<bar> - 53 = 0"
    using bit_length_le [of "\<bar>i\<bar>" 53] by simp
  then show ?thesis
    unfolding float64_of_int64_def round_half_even_def Let_def by (simp add: sgn_if)
qed

lemma float64_of_int64_0: "float64_of_int64 0 = 0"
  by (simp add: float64_of_int64_def)

lemma float64_of_int64_nonneg: "0 \<le> i \<Longrightarrow> 0 \<le> float64_of_int64 i"
  unfolding float64_of_int64_def round_half_even_def Let_def
  by (simp add: sgn_if pos_imp_zdiv_nonneg_iff)

text \<open>
  The conversion is monotone: rounding to a multiple of \<open>2^k\<close> is, and a longer number
  is rounded to at least \<open>2^(52+k)\<close>, which a shorter one does not exceed after rounding.
\<close>

lemma round_half_even_bounds:
  assumes "0 \<le> a"
  shows "a div 2 ^ k * 2 ^ k \<le> round_half_even a k"
    and "round_half_even a k \<le> (a div 2 ^ k + 1) * 2 ^ k"
proof -
  have "a div 2 ^ k * 2 ^ k \<le> (a div 2 ^ k + 1) * 2 ^ k"
    by (simp add: algebra_simps)
  then show "a div 2 ^ k * 2 ^ k \<le> round_half_even a k"
    and "round_half_even a k \<le> (a div 2 ^ k + 1) * 2 ^ k"
    unfolding round_half_even_def Let_def by simp_all
qed

lemma round_half_even_mono:
  assumes "0 \<le> a" and "a \<le> b"
  shows "round_half_even a k \<le> round_half_even b k"
proof -
  let ?p = "2 ^ k :: int"
  have p: "0 < ?p"
    by simp
  have q: "a div ?p \<le> b div ?p"
    using assms(2) p by (rule zdiv_mono1)
  show ?thesis
  proof (cases "a div ?p = b div ?p")
    case True
    have "a mod ?p = a - a div ?p * ?p" "b mod ?p = b - b div ?p * ?p"
      by (simp_all add: minus_div_mult_eq_mod)
    with True assms(2) have "a mod ?p \<le> b mod ?p"
      by simp
    with True show ?thesis
      unfolding round_half_even_def Let_def by auto
  next
    case False
    with q have "a div ?p + 1 \<le> b div ?p"
      by simp
    then have "(a div ?p + 1) * ?p \<le> b div ?p * ?p"
      by (rule mult_right_mono) simp
    moreover have "round_half_even a k \<le> (a div ?p + 1) * ?p"
      using assms(1) by (rule round_half_even_bounds)
    moreover have "b div ?p * ?p \<le> round_half_even b k"
      using assms by (intro round_half_even_bounds) simp
    ultimately show ?thesis
      by linarith
  qed
qed

lemma bit_length_bounds:
  "0 < a \<Longrightarrow> 2 ^ (bit_length a - 1) \<le> a \<and> a < 2 ^ bit_length a"
proof (induction a rule: bit_length.induct)
  case (1 a)
  show ?case
  proof (cases "a div 2 \<le> 0")
    case True
    with 1(2) have "a = 1"
      by linarith
    then show ?thesis
      by (simp add: bit_length.simps)
  next
    case False
    then have pos: "0 < a div 2" and "\<not> a \<le> 0"
      using 1(2) by simp_all
    with 1(1) have ih: "2 ^ (bit_length (a div 2) - 1) \<le> a div 2"
      "a div 2 < 2 ^ bit_length (a div 2)"
      by simp_all
    have bl: "bit_length a = Suc (bit_length (a div 2))"
      using 1(2) by (subst bit_length.simps) simp
    have "0 < bit_length (a div 2)"
      using pos by (subst bit_length.simps) simp
    then have "(2::int) ^ (bit_length a - 1) = 2 * 2 ^ (bit_length (a div 2) - 1)"
      unfolding bl by (cases "bit_length (a div 2)") simp_all
    with ih show ?thesis
      unfolding bl by simp linarith
  qed
qed

lemma bit_length_mono:
  assumes "a \<le> b"
  shows "bit_length a \<le> bit_length b"
proof (cases "0 < a")
  case False
  then show ?thesis
    by (subst bit_length.simps) simp
next
  case True
  with assms have b: "0 < b"
    by simp
  show ?thesis
  proof (rule ccontr)
    assume "\<not> bit_length a \<le> bit_length b"
    then have "bit_length b \<le> bit_length a - 1"
      by simp
    then have "(2::int) ^ bit_length b \<le> 2 ^ (bit_length a - 1)"
      by (simp add: power_increasing)
    with bit_length_bounds [OF True] bit_length_bounds [OF b] assms show False
      by linarith
  qed
qed


lemma div_less_of_less_mult:
  fixes a c p :: int
  assumes "0 < p" and "a < c * p"
  shows "a div p < c"
proof (rule ccontr)
  assume "\<not> a div p < c"
  then have "c \<le> a div p"
    by simp
  then have "c * p \<le> a div p * p"
    using assms(1) by (simp add: mult_right_mono)
  moreover have "a div p * p = a - a mod p" and "0 \<le> a mod p"
    using assms(1) by (simp_all add: minus_mod_eq_div_mult)
  ultimately show False
    using assms(2) by linarith
qed

lemma float64_magnitude_mono:
  assumes "0 \<le> a" and "a \<le> b"
  shows "round_half_even a (bit_length a - 53) \<le> round_half_even b (bit_length b - 53)"
proof -
  define ka where "ka = bit_length a - 53"
  define kb where "kb = bit_length b - 53"
  have b: "0 \<le> b"
    using assms by simp
  have "bit_length a \<le> bit_length b"
    using assms(2) by (rule bit_length_mono)
  then have le: "ka \<le> kb"
    unfolding ka_def kb_def by simp
  show ?thesis
  proof (cases "ka = kb")
    case True
    then show ?thesis
      using round_half_even_mono [OF assms, of ka] by (simp add: ka_def kb_def)
  next
    case False
    with le have lt: "ka < kb"
      by simp
    have "a < 2 ^ (53 + ka)"
    proof (cases "0 < a")
      case True
      have "bit_length a \<le> 53 + ka"
        unfolding ka_def by simp
      then have "(2::int) ^ bit_length a \<le> 2 ^ (53 + ka)"
        by (simp add: power_increasing)
      with bit_length_bounds [OF True] show ?thesis
        by linarith
    next
      case False
      with assms(1) have "a = 0"
        by simp
      then show ?thesis
        by simp
    qed
    then have "a < 2 ^ 53 * 2 ^ ka"
      by (simp add: power_add)
    then have "a div 2 ^ ka < 2 ^ 53"
      by (intro div_less_of_less_mult) simp_all
    then have "a div 2 ^ ka + 1 \<le> 2 ^ 53"
      by simp
    then have "(a div 2 ^ ka + 1) * 2 ^ ka \<le> 2 ^ 53 * 2 ^ ka"
      by (rule mult_right_mono) simp
    with round_half_even_bounds(2) [OF assms(1), of ka]
    have upper: "round_half_even a ka \<le> 2 ^ 53 * 2 ^ ka"
      by (rule order_trans)
    from lt have kb: "bit_length b = 53 + kb" and "0 < bit_length b"
      unfolding kb_def by simp_all
    then have bpos: "0 < b"
      by (subst (asm) bit_length.simps) (simp split: if_splits)
    from bit_length_bounds [OF bpos] have "2 ^ 52 * 2 ^ kb \<le> b"
      unfolding kb by (simp add: power_add)
    then have "(2 ^ 52 * 2 ^ kb) div 2 ^ kb \<le> b div 2 ^ kb"
      by (intro zdiv_mono1) simp_all
    then have "2 ^ 52 \<le> b div 2 ^ kb"
      by simp
    then have "2 ^ 52 * 2 ^ kb \<le> b div 2 ^ kb * 2 ^ kb"
      by (rule mult_right_mono) simp
    from this round_half_even_bounds(1) [OF b, of kb]
    have lower: "2 ^ 52 * 2 ^ kb \<le> round_half_even b kb"
      by (rule order_trans)
    from lt have "53 + ka \<le> 52 + kb"
      by simp
    then have "(2::int) ^ (53 + ka) \<le> 2 ^ (52 + kb)"
      by (rule power_increasing) simp
    then have "(2::int) ^ 53 * 2 ^ ka \<le> 2 ^ 52 * 2 ^ kb"
      by (simp only: power_add)
    with upper lower show ?thesis
      unfolding ka_def kb_def by linarith
  qed
qed

lemma float64_of_int64_mono:
  assumes "i \<le> j"
  shows "float64_of_int64 i \<le> float64_of_int64 j"
proof -
  let ?g = "\<lambda>a. round_half_even a (bit_length a - 53)"
  have f: "float64_of_int64 x = real_of_int (sgn x * ?g \<bar>x\<bar>)" for x
    by (simp add: float64_of_int64_def Let_def)
  have g0: "0 \<le> ?g \<bar>x\<bar>" for x
  proof -
    have "0 \<le> \<bar>x\<bar> div 2 ^ (bit_length \<bar>x\<bar> - 53) * 2 ^ (bit_length \<bar>x\<bar> - 53)"
      by (simp add: pos_imp_zdiv_nonneg_iff)
    with round_half_even_bounds(1) [of "\<bar>x\<bar>" "bit_length \<bar>x\<bar> - 53"] show ?thesis
      by linarith
  qed
  consider "0 \<le> i" | "i < 0" "0 \<le> j" | "j < 0"
    using assms by linarith
  then have "sgn i * ?g \<bar>i\<bar> \<le> sgn j * ?g \<bar>j\<bar>"
  proof cases
    case 1
    with assms have "?g \<bar>i\<bar> \<le> ?g \<bar>j\<bar>"
      by (intro float64_magnitude_mono) simp_all
    with 1 assms g0 [of j] show ?thesis
      by (cases "i = 0") (simp_all add: sgn_if)
  next
    case 2
    with g0 [of i] g0 [of j] show ?thesis
      by (simp add: sgn_if)
  next
    case 3
    with assms have "?g \<bar>j\<bar> \<le> ?g \<bar>i\<bar>"
      by (intro float64_magnitude_mono) simp_all
    with 3 assms show ?thesis
      by (simp add: sgn_if)
  qed
  then have "real_of_int (sgn i * ?g \<bar>i\<bar>) \<le> real_of_int (sgn j * ?g \<bar>j\<bar>)"
    by (simp only: of_int_le_iff)
  then show ?thesis
    unfolding f .
qed

lemma Max_float64_of_int64:
  assumes "finite S" and "S \<noteq> {}"
  shows "Max (float64_of_int64 ` S) = float64_of_int64 (Max S)"
  using mono_Max_commute [of float64_of_int64 S] assms
  by (simp add: mono_def float64_of_int64_mono)

lemma EndWithStatus_URLHighestResponse:
  "URLHighestResponse (EndWithStatus end' now start status url method useragent mw) =
     (if index (URLHighestResponse mw) url < float64_of_int64 (Time_Sub end' start)
      then assign (URLHighestResponse mw) url (float64_of_int64 (Time_Sub end' start))
      else URLHighestResponse mw)"
  by (simp add: EndWithStatus_fields Let_def)

lemma EndWithStatus_URLLowestResponse:
  "URLLowestResponse (EndWithStatus end' now start status url method useragent mw) =
     (let lowest =
        (if index (URLLowestResponse mw) url = 0
         then assign (URLLowestResponse mw) url (float64_of_int64 (Time_Sub end' start))
         else URLLowestResponse mw)
      in if float64_of_int64 (Time_Sub end' start) < index lowest url
         then assign lowest url (float64_of_int64 (Time_Sub end' start))
         else lowest)"
  by (simp add: EndWithStatus_fields Let_def)

lemma elapsed_of_snoc:
  "elapsed_of u (evs @ [ev]) =
     elapsed_of u evs @ (case ev of Request end' now start status url method useragent \<Rightarrow>
        if url = u then [Time_Sub end' start] else [] | _ \<Rightarrow> [])"
  by (induction u evs rule: elapsed_of.induct) (auto split: event.splits)

lemma step_highest:
  "index (URLHighestResponse (step mw ev)) u =
     (case ev of Request end' now start status url method useragent \<Rightarrow>
        if url = u
        then max (index (URLHighestResponse mw) u) (float64_of_int64 (Time_Sub end' start))
        else index (URLHighestResponse mw) u
      | _ \<Rightarrow> index (URLHighestResponse mw) u)"
  by (cases ev)
    (auto simp: EndWithStatus_URLHighestResponse index_assign ResetResponseCounts_def
      Data_fields Let_def max_def split: prod.splits)

lemma run_highest:
  "index (URLHighestResponse (run mw evs)) u =
     Max (insert (index (URLHighestResponse mw) u) (float64_of_int64 ` set (elapsed_of u evs)))"
proof (induction evs rule: rev_induct)
  case Nil
  then show ?case
    by (simp add: run_def)
next
  case (snoc ev evs)
  let ?S = "float64_of_int64 ` set (elapsed_of u evs)"
  have comm: "Max (insert a (insert b ?S)) = max b (Max (insert a ?S))" for a b
    by (subst insert_commute) simp
  show ?case
  proof (cases ev)
    case (Request end' now start status url meth useragent)
    with snoc comm show ?thesis
      by (simp add: run_snoc elapsed_of_snoc step_highest max.commute del: step.simps)
  next
    case Tick
    with snoc show ?thesis
      by (simp add: run_snoc elapsed_of_snoc step_highest del: step.simps)
  next
    case (Export now now')
    with snoc show ?thesis
      by (simp add: run_snoc elapsed_of_snoc step_highest del: step.simps)
  qed
qed

text \<open>
  Claim C4. Recording a request for the URL \<open>url\<close> with the elapsed duration \<open>e\<close> (as the
  \<^verbatim>\<open>float64\<close> the map holds, which is \<open>e\<close> itself below \<open>2^53\<close> nanoseconds): when
  \<^verbatim>\<open>URLLowestResponse\<close> has no entry for \<open>url\<close>, or the entry \<open>0\<close>, the entry becomes \<open>e\<close>;
  when it has an entry other than \<open>0\<close> that \<open>e\<close> is strictly less than, the entry becomes
  \<open>e\<close>; in the remaining case the map is unchanged. The entries of the other URLs are
  never changed.
\<close>

theorem lowest_response_update:
  "let e = float64_of_int64 (Time_Sub end' start);
       L = URLLowestResponse mw;
       L' = URLLowestResponse (EndWithStatus end' now start status url method useragent mw)
   in (map_of L url = None \<or> map_of L url = Some 0 \<longrightarrow> map_of L' url = Some e)
    \<and> (map_of L url = Some c \<and> c \<noteq> 0 \<and> e < c \<longrightarrow> map_of L' url = Some e)
    \<and> (map_of L url = Some c \<and> c \<noteq> 0 \<and> \<not> e < c \<longrightarrow> L' = L)
    \<and> (u \<noteq> url \<longrightarrow> map_of L' u = map_of L u)
    \<and> (\<bar>Time_Sub end' start\<bar> < 2 ^ 53 \<longrightarrow> e = real_of_int (Time_Sub end' start))"
proof -
  define e where "e = float64_of_int64 (Time_Sub end' start)"
  define L where "L = URLLowestResponse mw"
  define L' where
    "L' = URLLowestResponse (EndWithStatus end' now start status url method useragent mw)"
  have L': "L' = (let lowest = (if index L url = 0 then assign L url e else L)
                  in if e < index lowest url then assign lowest url e else lowest)"
    unfolding L'_def L_def e_def by (rule EndWithStatus_URLLowestResponse)
  have 1: "map_of L' url = Some e" if "map_of L url = None \<or> map_of L url = Some 0"
  proof -
    from that have "index L url = 0"
      by (auto simp: index_def)
    then show ?thesis
      unfolding L' by (simp add: index_assign map_of_assign)
  qed
  have 2: "map_of L' url = Some e" if "map_of L url = Some c" "c \<noteq> 0" "e < c"
    using that unfolding L' by (simp add: index_def map_of_assign)
  have 3: "L' = L" if "map_of L url = Some c" "c \<noteq> 0" "\<not> e < c"
    using that unfolding L' by (simp add: index_def)
  have 4: "map_of L' u = map_of L u" if "u \<noteq> url"
    using that unfolding L' by (simp add: Let_def map_of_assign)
  have 5: "e = real_of_int (Time_Sub end' start)" if "\<bar>Time_Sub end' start\<bar> < 2 ^ 53"
    unfolding e_def using that by (rule float64_of_int64_exact)
  from 1 2 3 4 5 show ?thesis
    unfolding Let_def e_def [symmetric] L_def [symmetric] L'_def [symmetric] by blast
qed

theorem lowest_response_update_witness:
  "map_of (URLLowestResponse (New 5 1)) ''/a'' = None
   \<and> map_of (URLLowestResponse
         (EndWithStatus 110 111 100 200 ''/a'' ''GET'' ''curl'' (New 5 1))) ''/a'' = Some 10
   \<and> map_of (URLLowestResponse
         (EndWithStatus 305 306 300 200 ''/a'' ''GET'' ''curl''
           (EndWithStatus 110 111 100 200 ''/a'' ''GET'' ''curl'' (New 5 1)))) ''/a'' = Some 5
   \<and> URLLowestResponse
         (EndWithStatus 250 251 200 200 ''/a'' ''GET'' ''curl''
           (EndWithStatus 110 111 100 200 ''/a'' ''GET'' ''curl'' (New 5 1)))
       = URLLowestResponse (EndWithStatus 110 111 100 200 ''/a'' ''GET'' ''curl'' (New 5 1))
   \<and> map_of (URLLowestResponse
         (EndWithStatus 250 251 200 200 ''/b'' ''GET'' ''curl''
           (EndWithStatus 110 111 100 200 ''/a'' ''GET'' ''curl'' (New 5 1)))) ''/a'' = Some 10"
proof -
  let ?s0 = "New 5 1"
  let ?s1 = "EndWithStatus 110 111 100 200 ''/a'' ''GET'' ''curl'' (New 5 1)"
  have e: "float64_of_int64 (Time_Sub 110 100) = 10" "float64_of_int64 (Time_Sub 305 300) = 5"
    "float64_of_int64 (Time_Sub 250 200) = 50"
    by code_simp+
  have none: "map_of (URLLowestResponse ?s0) ''/a'' = None"
    by (simp add: New_def)
  have first: "map_of (URLLowestResponse ?s1) ''/a'' = Some 10"
    using lowest_response_update [of 110 100 ?s0 111 200 "''/a''" "''GET''" "''curl''"] none
    unfolding Let_def e by simp
  have lower: "map_of (URLLowestResponse
      (EndWithStatus 305 306 300 200 ''/a'' ''GET'' ''curl'' ?s1)) ''/a'' = Some 5"
    using lowest_response_update [of 305 300 ?s1 306 200 "''/a''" "''GET''" "''curl''" 10] first
    unfolding Let_def e by simp
  have keep: "URLLowestResponse (EndWithStatus 250 251 200 200 ''/a'' ''GET'' ''curl'' ?s1)
      = URLLowestResponse ?s1"
    using lowest_response_update [of 250 200 ?s1 251 200 "''/a''" "''GET''" "''curl''" 10] first
    unfolding Let_def e by simp
  have other: "map_of (URLLowestResponse
      (EndWithStatus 250 251 200 200 ''/b'' ''GET'' ''curl'' ?s1)) ''/a'' = Some 10"
    using lowest_response_update [of 250 200 ?s1 251 200 "''/b''" "''GET''" "''curl''" _ "''/a''"] first
    unfolding Let_def e by simp
  from none first lower keep other show ?thesis
    by simp
qed

text \<open>
  Claim C6, as the claim states it, fails: a first request for a URL with the elapsed
  duration \<open>0\<close> creates no entry in \<^verbatim>\<open>URLHighestResponse\<close>, since the missing entry
  reads as \<open>0\<close> and \<open>0 < 0\<close> is false.
\<close>

theorem highest_response_zero_counterexample:
  "Time_Sub 100 100 = 0
   \<and> map_of (URLHighestResponse (New 5 1)) ''/a'' = None
   \<and> map_of (URLHighestResponse
         (EndWithStatus 100 101 100 200 ''/a'' ''GET'' ''curl'' (New 5 1))) ''/a'' = None"
  by code_simp

text \<open>
  Claim C6, amended. Recording a request for \<open>url\<close> with the elapsed duration \<open>e\<close> (as a
  \<^verbatim>\<open>float64\<close>, which is \<open>e\<close> itself below \<open>2^53\<close> nanoseconds): when \<^verbatim>\<open>URLHighestResponse\<close>
  has no entry for \<open>url\<close> and \<open>0 < e\<close>, or has an entry that \<open>e\<close> strictly exceeds, the
  entry becomes \<open>e\<close>; otherwise the map is unchanged, so a first elapsed duration that is
  not positive creates no entry. The entries of the other URLs are never changed.
  Consequently, after any run from a new store, \<^verbatim>\<open>URLHighestResponse[u]\<close> (\<open>0\<close> when \<open>u\<close>
  has no entry) is the greatest of \<open>0\<close> and the latencies recorded for \<open>u\<close>, as a
  \<^verbatim>\<open>float64\<close>, and it is the greatest latency recorded for \<open>u\<close> as soon as one of them is
  not negative.
\<close>

theorem highest_response_update:
  "let e = float64_of_int64 (Time_Sub end' start);
       H = URLHighestResponse mw;
       H' = URLHighestResponse (EndWithStatus end' now start status url method useragent mw)
   in (map_of H url = None \<and> 0 < e \<longrightarrow> map_of H' url = Some e)
    \<and> (map_of H url = None \<and> \<not> 0 < e \<longrightarrow> H' = H)
    \<and> (map_of H url = Some c \<and> c < e \<longrightarrow> map_of H' url = Some e)
    \<and> (map_of H url = Some c \<and> \<not> c < e \<longrightarrow> H' = H)
    \<and> (u \<noteq> url \<longrightarrow> map_of H' u = map_of H u)
    \<and> (\<bar>Time_Sub end' start\<bar> < 2 ^ 53 \<longrightarrow> e = real_of_int (Time_Sub end' start))
    \<and> index (URLHighestResponse (run (New t pid) evs)) u
        = float64_of_int64 (Max (insert 0 (set (elapsed_of u evs))))
    \<and> ((\<exists>d\<in>set (elapsed_of u evs). 0 \<le> d) \<longrightarrow>
        index (URLHighestResponse (run (New t pid) evs)) u
          = float64_of_int64 (Max (set (elapsed_of u evs))))"
proof -
  define e where "e = float64_of_int64 (Time_Sub end' start)"
  define H where "H = URLHighestResponse mw"
  define H' where
    "H' = URLHighestResponse (EndWithStatus end' now start status url method useragent mw)"
  let ?S = "set (elapsed_of u evs)"
  have H': "H' = (if index H url < e then assign H url e else H)"
    unfolding H'_def H_def e_def by (rule EndWithStatus_URLHighestResponse)
  have 1: "map_of H' url = Some e" if "map_of H url = None" "0 < e"
    using that unfolding H' by (simp add: index_def map_of_assign)
  have 2: "H' = H" if "map_of H url = None" "\<not> 0 < e"
    using that unfolding H' by (simp add: index_def)
  have 3: "map_of H' url = Some e" if "map_of H url = Some c" "c < e"
    using that unfolding H' by (simp add: index_def map_of_assign)
  have 4: "H' = H" if "map_of H url = Some c" "\<not> c < e"
    using that unfolding H' by (simp add: index_def)
  have 5: "map_of H' u = map_of H u" if "u \<noteq> url"
    using that unfolding H' by (simp add: map_of_assign)
  have 6: "e = real_of_int (Time_Sub end' start)" if "\<bar>Time_Sub end' start\<bar> < 2 ^ 53"
    unfolding e_def using that by (rule float64_of_int64_exact)
  have "index (URLHighestResponse (run (New t pid) evs)) u
      = Max (insert 0 (float64_of_int64 ` ?S))"
    using run_highest [of "New t pid" evs u] by (simp add: New_def index_def)
  also have "insert 0 (float64_of_int64 ` ?S) = float64_of_int64 ` insert 0 ?S"
    by (simp add: float64_of_int64_0)
  also have "Max \<dots> = float64_of_int64 (Max (insert 0 ?S))"
    by (rule Max_float64_of_int64) simp_all
  finally have 7: "index (URLHighestResponse (run (New t pid) evs)) u
      = float64_of_int64 (Max (insert 0 ?S))" .
  have 8: "Max (insert 0 ?S) = Max ?S" if "\<exists>d\<in>?S. 0 \<le> d"
  proof -
    from that obtain d where d: "d \<in> ?S" "0 \<le> d"
      by blast
    then have "d \<le> Max ?S"
      by simp
    with d(2) have "0 \<le> Max ?S"
      by linarith
    moreover from d(1) have "?S \<noteq> {}"
      by auto
    ultimately have "0 \<le> Max ?S" and "?S \<noteq> {}"
      by simp_all
    then show ?thesis
      by (simp add: max_def)
  qed
  from 1 2 3 4 5 6 7 8 show ?thesis
    unfolding Let_def e_def [symmetric] H_def [symmetric] H'_def [symmetric] by presburger
qed

theorem highest_response_update_witness:
  "map_of (URLHighestResponse (New 5 1)) ''/a'' = None
   \<and> map_of (URLHighestResponse
         (EndWithStatus 110 111 100 200 ''/a'' ''GET'' ''curl'' (New 5 1))) ''/a'' = Some 10
   \<and> URLHighestResponse (EndWithStatus 100 101 100 200 ''/a'' ''GET'' ''curl'' (New 5 1))
       = URLHighestResponse (New 5 1)
   \<and> map_of (URLHighestResponse
         (EndWithStatus 250 251 200 200 ''/a'' ''GET'' ''curl''
           (EndWithStatus 110 111 100 200 ''/a'' ''GET'' ''curl'' (New 5 1)))) ''/a'' = Some 50
   \<and> URLHighestResponse
         (EndWithStatus 305 306 300 200 ''/a'' ''GET'' ''curl''
           (EndWithStatus 110 111 100 200 ''/a'' ''GET'' ''curl'' (New 5 1)))
       = URLHighestResponse (EndWithStatus 110 111 100 200 ''/a'' ''GET'' ''curl'' (New 5 1))
   \<and> map_of (URLHighestResponse
         (EndWithStatus 250 251 200 200 ''/b'' ''GET'' ''curl''
           (EndWithStatus 110 111 100 200 ''/a'' ''GET'' ''curl'' (New 5 1)))) ''/a'' = Some 10
   \<and> elapsed_of ''/a''
         [Request 110 111 100 200 ''/a'' ''GET'' ''curl'', Tick,
          Request 250 251 200 404 ''/a'' ''POST'' ''curl'', Export 300 301,
          Request 280 281 200 404 ''/b'' ''POST'' ''curl'',
          Request 305 306 300 200 ''/a'' ''GET'' ''wget''] = [10, 50, 5]
   \<and> index (URLHighestResponse (run (New 5 1)
         [Request 110 111 100 200 ''/a'' ''GET'' ''curl'', Tick,
          Request 250 251 200 404 ''/a'' ''POST'' ''curl'', Export 300 301,
          Request 280 281 200 404 ''/b'' ''POST'' ''curl'',
          Request 305 306 300 200 ''/a'' ''GET'' ''wget''])) ''/a'' = 50
   \<and> index (URLHighestResponse (run (New 5 1)
         [Request 110 111 100 200 ''/a'' ''GET'' ''curl'', Tick,
          Request 250 251 200 404 ''/a'' ''POST'' ''curl'', Export 300 301,
          Request 280 281 200 404 ''/b'' ''POST'' ''curl'',
          Request 305 306 300 200 ''/a'' ''GET'' ''wget''])) ''/a''
       = float64_of_int64 (Max (set [10, 50, 5]))"
proof -
  let ?s0 = "New 5 1"
  let ?s1 = "EndWithStatus 110 111 100 200 ''/a'' ''GET'' ''curl'' (New 5 1)"
  let ?evs = "[Request 110 111 100 200 ''/a'' ''GET'' ''curl'', Tick,
          Request 250 251 200 404 ''/a'' ''POST'' ''curl'', Export 300 301,
          Request 280 281 200 404 ''/b'' ''POST'' ''curl'',
          Request 305 306 300 200 ''/a'' ''GET'' ''wget'']"
  have e: "float64_of_int64 (Time_Sub 110 100) = 10" "float64_of_int64 (Time_Sub 305 300) = 5"
    "float64_of_int64 (Time_Sub 250 200) = 50" "float64_of_int64 (Time_Sub 100 100) = 0"
    by code_simp+
  have none: "map_of (URLHighestResponse ?s0) ''/a'' = None"
    by (simp add: New_def)
  have first: "map_of (URLHighestResponse ?s1) ''/a'' = Some 10"
    using highest_response_update [of 110 100 ?s0 111 200 "''/a''" "''GET''" "''curl''"] none
    unfolding Let_def e by simp
  have zero: "URLHighestResponse (EndWithStatus 100 101 100 200 ''/a'' ''GET'' ''curl'' ?s0)
      = URLHighestResponse ?s0"
    using highest_response_update [of 100 100 ?s0 101 200 "''/a''" "''GET''" "''curl''"] none
    unfolding Let_def e by simp
  have raise: "map_of (URLHighestResponse
      (EndWithStatus 250 251 200 200 ''/a'' ''GET'' ''curl'' ?s1)) ''/a'' = Some 50"
    using highest_response_update [of 250 200 ?s1 251 200 "''/a''" "''GET''" "''curl''" 10] first
    unfolding Let_def e by simp
  have keep: "URLHighestResponse (EndWithStatus 305 306 300 200 ''/a'' ''GET'' ''curl'' ?s1)
      = URLHighestResponse ?s1"
    using highest_response_update [of 305 300 ?s1 306 200 "''/a''" "''GET''" "''curl''" 10] first
    unfolding Let_def e by simp
  have other: "map_of (URLHighestResponse
      (EndWithStatus 250 251 200 200 ''/b'' ''GET'' ''curl'' ?s1)) ''/a'' = Some 10"
    using highest_response_update [of 250 200 ?s1 251 200 "''/b''" "''GET''" "''curl''" _ "''/a''"] first
    unfolding Let_def e by simp
  have el: "elapsed_of ''/a'' ?evs = [10, 50, 5]"
    by code_simp
  have img: "float64_of_int64 (Max (insert 0 (set [10, 50, 5]))) = 50"
    by code_simp
  have run: "index (URLHighestResponse (run (New 5 1) ?evs)) ''/a'' = 50"
    using highest_response_update [of _ _ _ _ _ _ _ _ _ "''/a''" 5 1 ?evs]
    unfolding Let_def el img by simp
  have some: "\<exists>d\<in>set [10, 50, 5 :: int]. 0 \<le> d"
    by simp
  have run': "index (URLHighestResponse (run (New 5 1) ?evs)) ''/a''
      = float64_of_int64 (Max (set [10, 50, 5]))"
    using highest_response_update [of _ _ _ _ _ _ _ _ _ "''/a''" 5 1 ?evs] some
    unfolding Let_def el by blast
  from none first zero raise keep other el run run' show ?thesis
    by simp
qed

section \<open>The average response time\<close>

lemma Time_Sub_range: "- (2 ^ 63) \<le> Time_Sub t u \<and> Time_Sub t u < 2 ^ 63"
  by (simp add: Time_Sub_def Let_def minDuration_def maxDuration_def)

lemma sdiv_pos_bounds:
  fixes a b :: int
  assumes "0 < b"
  shows "\<bar>a sdiv b\<bar> = \<bar>a\<bar> div b" and "sgn (a sdiv b) * sgn a \<noteq> - 1" and "\<bar>a sdiv b\<bar> \<le> \<bar>a\<bar>"
    and "a sdiv b = sgn a * (\<bar>a\<bar> div b)"
proof -
  have q: "0 \<le> \<bar>a\<bar> div b"
    using assms by (simp add: pos_imp_zdiv_nonneg_iff)
  show eq: "a sdiv b = sgn a * (\<bar>a\<bar> div b)"
    using assms by (simp add: signed_divide_int_def)
  show abs: "\<bar>a sdiv b\<bar> = \<bar>a\<bar> div b"
    unfolding eq using q by (cases "a = 0") (simp_all add: abs_mult)
  show "sgn (a sdiv b) * sgn a \<noteq> - 1"
    unfolding eq using q by (auto simp: sgn_if mult_less_0_iff)
  have "\<bar>a\<bar> div b \<le> \<bar>a\<bar>"
    using assms by (cases "a = 0") (simp_all add: int_div_le_self)
  then show "\<bar>a sdiv b\<bar> \<le> \<bar>a\<bar>"
    unfolding abs .
qed

lemma div64_pos:
  assumes "- (2 ^ 63) \<le> a" "a < 2 ^ 63" "0 < b"
  shows "div64 a b = a sdiv b"
proof -
  have eq: "a sdiv b = sgn a * (\<bar>a\<bar> div b)" and le: "\<bar>a\<bar> div b \<le> \<bar>a\<bar>"
    using sdiv_pos_bounds [OF assms(3), of a] by simp_all
  have q: "0 \<le> \<bar>a\<bar> div b"
    using assms(3) by (simp add: pos_imp_zdiv_nonneg_iff)
  have "- (2 ^ 63) \<le> a sdiv b \<and> a sdiv b < 2 ^ 63"
  proof (cases "0 \<le> a")
    case True
    with eq le q assms show ?thesis
      by (cases "a = 0") simp_all
  next
    case False
    with eq le q assms show ?thesis
      by simp
  qed
  then show ?thesis
    unfolding div64_def by (simp add: wrap64_id)
qed

lemma Data_average:
  "data_AverageResponseTime (fst (Data now now' mw)) =
     (if 0 < data_TotalCount (fst (Data now now' mw))
      then div64 (data_TotalResponseTime (fst (Data now now' mw)))
             (data_TotalCount (fst (Data now now' mw)))
      else 0)"
  by (simp add: Data_fields Let_def split: prod.splits)

lemma Data_TotalResponseTime:
  "data_TotalResponseTime (fst (Data now now' mw)) = Time_Sub (TotalResponseTime mw) 0"
  by (simp add: Data_fields Let_def split: prod.splits)

text \<open>
  Claim C5. In the snapshot, the average response time is the total response time
  divided by the total count (Go's integer division of the nanoseconds) whenever the
  total count is positive, and zero when the total count is zero. The snapshot's total
  response time is the store's accumulated one as long as that fits a duration.
\<close>

theorem average_response_time:
  "let r = fst (Data now now' mw)
   in (0 < data_TotalCount r \<longrightarrow>
         data_AverageResponseTime r = data_TotalResponseTime r sdiv data_TotalCount r)
    \<and> (data_TotalCount r = 0 \<longrightarrow> data_AverageResponseTime r = 0)
    \<and> (minDuration \<le> TotalResponseTime mw \<and> TotalResponseTime mw \<le> maxDuration \<longrightarrow>
         data_TotalResponseTime r = TotalResponseTime mw)"
proof -
  define r where "r = fst (Data now now' mw)"
  have total: "data_TotalResponseTime r = Time_Sub (TotalResponseTime mw) 0"
    unfolding r_def by (rule Data_TotalResponseTime)
  have avg: "data_AverageResponseTime r =
      (if 0 < data_TotalCount r then div64 (data_TotalResponseTime r) (data_TotalCount r) else 0)"
    unfolding r_def by (rule Data_average)
  have "div64 (data_TotalResponseTime r) (data_TotalCount r)
      = data_TotalResponseTime r sdiv data_TotalCount r" if "0 < data_TotalCount r"
    using Time_Sub_range [of "TotalResponseTime mw" 0] that unfolding total
    by (intro div64_pos) simp_all
  with avg have 1: "data_AverageResponseTime r = data_TotalResponseTime r sdiv data_TotalCount r"
    if "0 < data_TotalCount r"
    using that by simp
  from avg have 2: "data_AverageResponseTime r = 0" if "data_TotalCount r = 0"
    using that by simp
  have 3: "data_TotalResponseTime r = TotalResponseTime mw"
    if "minDuration \<le> TotalResponseTime mw \<and> TotalResponseTime mw \<le> maxDuration"
    using that unfolding total by (simp add: Time_Sub_def)
  from 1 2 3 show ?thesis
    unfolding Let_def r_def [symmetric] by blast
qed

theorem average_response_time_witness:
  "data_TotalCount (fst (Data 400 401 (run (New 5 1)
       [Request 110 111 100 200 ''/a'' ''GET'' ''curl'',
        Request 250 251 200 200 ''/a'' ''GET'' ''curl'',
        Request 305 306 300 200 ''/a'' ''GET'' ''curl'']))) = 3
   \<and> TotalResponseTime (run (New 5 1)
       [Request 110 111 100 200 ''/a'' ''GET'' ''curl'',
        Request 250 251 200 200 ''/a'' ''GET'' ''curl'',
        Request 305 306 300 200 ''/a'' ''GET'' ''curl'']) = 65
   \<and> data_TotalResponseTime (fst (Data 400 401 (run (New 5 1)
       [Request 110 111 100 200 ''/a'' ''GET'' ''curl'',
        Request 250 251 200 200 ''/a'' ''GET'' ''curl'',
        Request 305 306 300 200 ''/a'' ''GET'' ''curl'']))) = 65
   \<and> data_AverageResponseTime (fst (Data 400 401 (run (New 5 1)
       [Request 110 111 100 200 ''/a'' ''GET'' ''curl'',
        Request 250 251 200 200 ''/a'' ''GET'' ''curl'',
        Request 305 306 300 200 ''/a'' ''GET'' ''curl'']))) = 21
   \<and> data_TotalCount (fst (Data 400 401 (New 5 1))) = 0
   \<and> data_AverageResponseTime (fst (Data 400 401 (New 5 1))) = 0"
proof -
  let ?mw = "run (New 5 1)
       [Request 110 111 100 200 ''/a'' ''GET'' ''curl'',
        Request 250 251 200 200 ''/a'' ''GET'' ''curl'',
        Request 305 306 300 200 ''/a'' ''GET'' ''curl'']"
  have n: "data_TotalCount (fst (Data 400 401 ?mw)) = 3"
    and store: "TotalResponseTime ?mw = 65"
    and n0: "data_TotalCount (fst (Data 400 401 (New 5 1))) = 0"
    by code_simp+
  have fits: "minDuration \<le> 65 \<and> 65 \<le> maxDuration"
    by (simp add: minDuration_def maxDuration_def)
  have q: "(65 :: int) sdiv 3 = 21"
    by (simp add: signed_divide_int_def)
  have total: "data_TotalResponseTime (fst (Data 400 401 ?mw)) = 65"
    using average_response_time [of 400 401 ?mw] fits unfolding Let_def store by blast
  have "data_AverageResponseTime (fst (Data 400 401 ?mw)) = 21"
    using average_response_time [of 400 401 ?mw] unfolding Let_def n total q by simp
  moreover have "data_AverageResponseTime (fst (Data 400 401 (New 5 1))) = 0"
    using average_response_time [of 400 401 "New 5 1"] unfolding Let_def n0 by simp
  ultimately show ?thesis
    using n store total n0 by simp
qed

text \<open>
  Claim C10. Whenever the total count \<open>n\<close> is positive, the snapshot's average is the
  quotient of the total response time in nanoseconds by \<open>n\<close>, truncated towards zero: its
  sign is the total's and its magnitude is the magnitude of the total divided by \<open>n\<close>,
  rounded down. Hence for a total that is not negative,
  \<open>average * n \<le> total < average * n + n\<close>.
\<close>

theorem average_response_time_truncates:
  "let r = fst (Data now now' mw);
       total = data_TotalResponseTime r;
       n = data_TotalCount r;
       avg = data_AverageResponseTime r
   in 0 < n \<longrightarrow>
        avg = sgn total * (\<bar>total\<bar> div n)
      \<and> \<bar>avg\<bar> * n \<le> \<bar>total\<bar> \<and> \<bar>total\<bar> < \<bar>avg\<bar> * n + n
      \<and> (0 \<le> total \<longrightarrow> avg * n \<le> total \<and> total < avg * n + n)"
proof -
  define r where "r = fst (Data now now' mw)"
  define total where "total = data_TotalResponseTime r"
  define n where "n = data_TotalCount r"
  define avg where "avg = data_AverageResponseTime r"
  have concl: "avg = sgn total * (\<bar>total\<bar> div n)
      \<and> \<bar>avg\<bar> * n \<le> \<bar>total\<bar> \<and> \<bar>total\<bar> < \<bar>avg\<bar> * n + n
      \<and> (0 \<le> total \<longrightarrow> avg * n \<le> total \<and> total < avg * n + n)" if n: "0 < n"
  proof -
    have range: "- (2 ^ 63) \<le> total \<and> total < 2 ^ 63"
      unfolding total_def r_def Data_TotalResponseTime by (rule Time_Sub_range)
    have "avg = div64 total n"
      using n unfolding avg_def total_def n_def r_def by (subst Data_average) simp
    with range n have avg: "avg = total sdiv n"
      by (simp add: div64_pos)
    from sdiv_pos_bounds [OF n, of total]
    have eq: "avg = sgn total * (\<bar>total\<bar> div n)" and abs: "\<bar>avg\<bar> = \<bar>total\<bar> div n"
      unfolding avg by simp_all
    have "\<bar>total\<bar> div n * n \<le> \<bar>total\<bar>" and "\<bar>total\<bar> < \<bar>total\<bar> div n * n + n"
      using n by (simp_all add: div_mult_self_is_m Euclidean_Rings.pos_mod_bound
          minus_mod_eq_div_mult [symmetric])
    then have b: "\<bar>avg\<bar> * n \<le> \<bar>total\<bar>" "\<bar>total\<bar> < \<bar>avg\<bar> * n + n"
      unfolding abs by simp_all
    have "avg * n \<le> total \<and> total < avg * n + n" if "0 \<le> total"
    proof -
      from that n have "0 \<le> avg"
        unfolding eq by (simp add: sgn_if pos_imp_zdiv_nonneg_iff)
      with that b show ?thesis
        by simp
    qed
    with eq b show ?thesis
      by blast
  qed
  then show ?thesis
    unfolding Let_def r_def [symmetric] total_def [symmetric] n_def [symmetric]
      avg_def [symmetric] by blast
qed

theorem average_response_time_truncates_witness:
  "data_TotalCount (fst (Data 900 901 (run (New 5 1)
       [Request 110 111 100 200 ''/a'' ''GET'' ''curl'',
        Request 100000000000 100000000000 0 500 ''/b'' ''GET'' ''curl'', Tick,
        Request 305 306 300 200 ''/a'' ''GET'' ''curl'']))) = 3
   \<and> data_TotalResponseTime (fst (Data 900 901 (run (New 5 1)
       [Request 110 111 100 200 ''/a'' ''GET'' ''curl'',
        Request 100000000000 100000000000 0 500 ''/b'' ''GET'' ''curl'', Tick,
        Request 305 306 300 200 ''/a'' ''GET'' ''curl'']))) = 100000000015
   \<and> data_AverageResponseTime (fst (Data 900 901 (run (New 5 1)
       [Request 110 111 100 200 ''/a'' ''GET'' ''curl'',
        Request 100000000000 100000000000 0 500 ''/b'' ''GET'' ''curl'', Tick,
        Request 305 306 300 200 ''/a'' ''GET'' ''curl'']))) = 33333333338
   \<and> (33333333338 :: int) * 3 \<le> 100000000015
   \<and> (100000000015 :: int) < 33333333338 * 3 + 3"
proof -
  let ?mw = "run (New 5 1)
       [Request 110 111 100 200 ''/a'' ''GET'' ''curl'',
        Request 100000000000 100000000000 0 500 ''/b'' ''GET'' ''curl'', Tick,
        Request 305 306 300 200 ''/a'' ''GET'' ''curl'']"
  have n: "data_TotalCount (fst (Data 900 901 ?mw)) = 3"
    and total: "data_TotalResponseTime (fst (Data 900 901 ?mw)) = 100000000015"
    by code_simp+
  have "data_AverageResponseTime (fst (Data 900 901 ?mw)) = 33333333338"
    using average_response_time_truncates [of 900 901 ?mw] unfolding Let_def n total by simp
  then show ?thesis
    using n total by simp
qed

section \<open>The window reset\<close>

text \<open>
  Claim C8. For every store, \<^verbatim>\<open>ResetResponseCounts\<close> leaves the window's status counts
  empty, so a snapshot taken before any new request has the window count \<open>0\<close>, and it
  leaves every other field of the store as it was: the process id, the start time, the
  cumulative maps, the cumulative response time, the extreme latencies and the peak
  record.
\<close>

theorem ResetResponseCounts_frame:
  "ResponseCounts (ResetResponseCounts mw) = []
   \<and> data_StatusCodeCount (fst (Data now now' (ResetResponseCounts mw))) = []
   \<and> data_Count (fst (Data now now' (ResetResponseCounts mw))) = 0
   \<and> ResetResponseCounts mw = mw\<lparr>ResponseCounts := []\<rparr>
   \<and> Uptime (ResetResponseCounts mw) = Uptime mw
   \<and> Pid (ResetResponseCounts mw) = Pid mw
   \<and> TotalResponseCounts (ResetResponseCounts mw) = TotalResponseCounts mw
   \<and> URLRequestLatency (ResetResponseCounts mw) = URLRequestLatency mw
   \<and> URLRequestCounts (ResetResponseCounts mw) = URLRequestCounts mw
   \<and> TotalResponseTime (ResetResponseCounts mw) = TotalResponseTime mw
   \<and> RequestTypeCounts (ResetResponseCounts mw) = RequestTypeCounts mw
   \<and> UserAgentCounts (ResetResponseCounts mw) = UserAgentCounts mw
   \<and> URLHighestResponse (ResetResponseCounts mw) = URLHighestResponse mw
   \<and> URLLowestResponse (ResetResponseCounts mw) = URLLowestResponse mw
   \<and> MaxResponseTime (ResetResponseCounts mw) = MaxResponseTime mw"
proof -
  have "data_Count (fst (Data now now' (ResetResponseCounts mw)))
      = wrap64 (sum_list (map snd (ResponseCounts (ResetResponseCounts mw))))"
    by (rule Data_Count)
  also have "\<dots> = 0"
    by (simp add: ResetResponseCounts_def wrap64_def)
  finally have "data_Count (fst (Data now now' (ResetResponseCounts mw))) = 0" .
  moreover have "data_StatusCodeCount (fst (Data now now' (ResetResponseCounts mw))) = []"
    by (simp add: Data_fields ResetResponseCounts_def Let_def split: prod.splits)
  ultimately show ?thesis
    by (simp add: ResetResponseCounts_def)
qed

section \<open>Rounding\<close>

text \<open>
  In exact arithmetic \<^verbatim>\<open>Round\<close> is the rounding of the spec on every value that is not
  negative (and small enough for the conversions to be exact).
\<close>

lemma Round_loop_eq:
  "i \<le> decimals \<Longrightarrow> Round_loop i decimals pow = pow * 10 ^ nat (decimals - i)"
proof (induction i decimals pow rule: Round_loop.induct)
  case (1 i decimals pow)
  show ?case
  proof (cases "i < decimals")
    case True
    then have "nat (decimals - i) = Suc (nat (decimals - (i + 1)))"
      by simp
    with True 1 show ?thesis
      by (subst Round_loop.simps) simp
  next
    case False
    with 1 show ?thesis
      by (subst Round_loop.simps) simp
  qed
qed

lemma Round_nonneg:
  assumes "0 \<le> v" and "v * 10 ^ n + 1 / 2 < 2 ^ 53"
  shows "Round v (int n) = round_half_away_from_zero v n"
proof -
  let ?x = "v * 10 ^ n + 1 / 2"
  have pow: "Round_loop 0 (int n) 1 = 10 ^ n"
    using Round_loop_eq [of 0 "int n" 1] by simp
  have x: "0 \<le> ?x"
    using assms(1) by simp
  then have fl: "0 \<le> \<lfloor>?x\<rfloor>"
    by simp
  have "real_of_int \<lfloor>?x\<rfloor> \<le> ?x"
    by simp
  with assms(2) have "real_of_int \<lfloor>?x\<rfloor> < 2 ^ 53"
    by linarith
  then have lt: "\<lfloor>?x\<rfloor> < 2 ^ 53"
    by (metis of_int_less_iff of_int_numeral of_int_power)
  with fl have conv: "int_of_float64 ?x = \<lfloor>?x\<rfloor>"
    using x by (simp add: int_of_float64_def)
  from fl lt have "float64_of_int64 \<lfloor>?x\<rfloor> = real_of_int \<lfloor>?x\<rfloor>"
    by (intro float64_of_int64_exact) simp
  with conv pow have "Round v (int n) = real_of_int \<lfloor>?x\<rfloor> / 10 ^ n"
    by (simp add: Round_def Let_def)
  moreover have "round_half_away_from_zero v n = real_of_int \<lfloor>?x\<rfloor> / 10 ^ n"
    using assms(1) by (cases "v = 0") (simp_all add: round_half_away_from_zero_def)
  ultimately show ?thesis
    by simp
qed

text \<open>
  Claim C9 says that \<^verbatim>\<open>Round(v, n)\<close> rounds \<open>v\<close> half away from zero to \<open>n\<close> decimal
  digits for negative \<open>v\<close> too. At \<open>v = -1.5\<close> and \<open>n = 0\<close>, where every floating-point
  operation of \<^verbatim>\<open>Round\<close> is exact, the function returns \<open>-1\<close>, and rounding half away from
  zero gives \<open>-2\<close>: the conversion to \<^verbatim>\<open>int\<close> drops the fraction towards zero, which for a
  negative value undoes the half that was added.
\<close>

theorem Round_negative_half:
  "Round (- 3 / 2) 0 = - 1 \<and> round_half_away_from_zero (- 3 / 2) 0 = - 2"
  by code_simp

section \<open>The spec's scenarios\<close>

text \<open>
  Three requests to \<^verbatim>\<open>/a\<close> with 10 ms, 50 ms and 5 ms elapsed, all with status 200: the
  URL has been requested three times, its greatest latency is 50 ms and its least 5 ms,
  and status 200 has been counted three times.
\<close>

lemma scenario_three_requests:
  "data_URLRequestCounts (fst (Data 400000000 400000000 (run (New 0 1)
       [Request 110000000 110000000 100000000 200 ''/a'' ''GET'' ''curl'',
        Request 250000000 250000000 200000000 200 ''/a'' ''GET'' ''curl'',
        Request 305000000 305000000 300000000 200 ''/a'' ''GET'' ''curl'']))) = [(''/a'', 3)]
   \<and> data_URLHighestResponse (fst (Data 400000000 400000000 (run (New 0 1)
       [Request 110000000 110000000 100000000 200 ''/a'' ''GET'' ''curl'',
        Request 250000000 250000000 200000000 200 ''/a'' ''GET'' ''curl'',
        Request 305000000 305000000 300000000 200 ''/a'' ''GET'' ''curl'']))) = [(''/a'', 50000000)]
   \<and> data_URLLowestResponse (fst (Data 400000000 400000000 (run (New 0 1)
       [Request 110000000 110000000 100000000 200 ''/a'' ''GET'' ''curl'',
        Request 250000000 250000000 200000000 200 ''/a'' ''GET'' ''curl'',
        Request 305000000 305000000 300000000 200 ''/a'' ''GET'' ''curl'']))) = [(''/a'', 5000000)]
   \<and> data_TotalStatusCodeCount (fst (Data 400000000 400000000 (run (New 0 1)
       [Request 110000000 110000000 100000000 200 ''/a'' ''GET'' ''curl'',
        Request 250000000 250000000 200000000 200 ''/a'' ''GET'' ''curl'',
        Request 305000000 305000000 300000000 200 ''/a'' ''GET'' ''curl'']))) = [(''200'', 3)]"
  by code_simp

text \<open>
  One request with 120 s elapsed, and an export 3600 s after it was recorded: the time
  since the peak is one hour.
\<close>

lemma scenario_one_hour_since_peak:
  "ResponseSince (data_MaxResponseTime (fst (Data 3720000000000 3720000000000 (run (New 0 1)
       [Request 120000000000 120000000000 0 200 ''/a'' ''GET'' ''curl'']))))
     = \<lparr>Weeks = 0, Days = 0, Hours = 1, Minutes = 0, Seconds = 0\<rparr>"
  by code_simp

end
